theory Spec2Isabelle
  imports Main "HOL-Library.Sublist"
begin

section \<open>Vulkan values handled by the scheduler\<close>

text \<open>
  The scheduler of \<^verbatim>\<open>vk_scheduler.cpp\<close> records commands into a command buffer and
  hands it to the graphics queue. Every method of the class is a function from the
  scheduler to a failure or the scheduler after the call. Handles are natural numbers,
  flag masks are sets of flag bits (\<open>a | b\<close> is the union, \<open>eNone\<close> the empty set),
  and a command buffer is the list of commands recorded into it, oldest first.
\<close>

type_synonym tick = nat
type_synonym vk_image = nat
type_synonym vk_semaphore = nat
type_synonym vk_fence = nat
type_synonym callback = nat

datatype AccessFlagBits =
  eColorAttachmentWrite | eDepthStencilAttachmentWrite | eShaderRead | eShaderWrite

datatype ImageLayout =
  eUndefined | eGeneral | eColorAttachmentOptimal | eDepthStencilAttachmentOptimal
  | eDepthStencilReadOnlyOptimal | eShaderReadOnlyOptimal

datatype ImageAspectFlagBits = eColor | eDepth | eStencil

datatype PipelineStageFlagBits =
  eAllCommands | eColorAttachmentOutput | eLateFragmentTests | eEarlyFragmentTests
  | eFragmentShader

datatype DependencyFlagBits = eByRegion

datatype CommandBufferUsageFlagBits = eOneTimeSubmit

definition VK_QUEUE_FAMILY_IGNORED :: nat where
  "VK_QUEUE_FAMILY_IGNORED = 4294967295"

definition VK_REMAINING_MIP_LEVELS :: nat where
  "VK_REMAINING_MIP_LEVELS = 4294967295"

definition VK_REMAINING_ARRAY_LAYERS :: nat where
  "VK_REMAINING_ARRAY_LAYERS = 4294967295"

record ImageSubresourceRange =
  aspectMask :: "ImageAspectFlagBits set"
  baseMipLevel :: nat
  levelCount :: nat
  baseArrayLayer :: nat
  layerCount :: nat

record ImageMemoryBarrier =
  srcAccessMask :: "AccessFlagBits set"
  dstAccessMask :: "AccessFlagBits set"
  oldLayout :: ImageLayout
  newLayout :: ImageLayout
  srcQueueFamilyIndex :: nat
  dstQueueFamilyIndex :: nat
  image :: vk_image
  subresourceRange :: ImageSubresourceRange

record RenderingAttachmentInfo =
  imageView :: nat
  imageLayout :: ImageLayout

text \<open>
  Modelled from the spec: \<open>RenderState\<close>, declared in the scheduler's header, with the
  fields \<^verbatim>\<open>BeginRendering\<close> and \<^verbatim>\<open>EndRendering\<close> read. The two attachment arrays
  are lists, and \<open>num_color_attachments\<close> is a field of its own, as in the source, so a
  state may announce more attachments than it carries. Equality of render states is
  structural.
\<close>

record RenderState =
  color_attachments :: "RenderingAttachmentInfo list"
  color_images :: "vk_image list"
  depth_attachment :: RenderingAttachmentInfo
  depth_image :: vk_image
  num_color_attachments :: nat
  has_depth :: bool
  has_stencil :: bool
  width :: nat
  height :: nat

text \<open>
  Modelled from the spec: the attachment arrays of a render state have 8 slots (the spec
  gives the capacity 9 of the barrier vector as the number of attachments plus 1), of
  which the first \<open>num_color_attachments\<close> are in use.
\<close>

definition color_attachment_slots :: nat where
  "color_attachment_slots = 8"

definition RenderState_slots :: "RenderState \<Rightarrow> bool" where
  "RenderState_slots rs =
     (length (color_attachments rs) = color_attachment_slots \<and>
      length (color_images rs) = color_attachment_slots \<and>
      num_color_attachments rs \<le> color_attachment_slots)"

record RenderingInfo =
  renderArea_offset :: "int \<times> int"
  renderArea_extent :: "nat \<times> nat"
  ri_layerCount :: nat
  colorAttachmentCount :: nat
  pColorAttachments :: "RenderingAttachmentInfo list"
  pDepthAttachment :: "RenderingAttachmentInfo option"
  pStencilAttachment :: "RenderingAttachmentInfo option"

text \<open>
  The commands the scheduler records. The last three stand for what the profiler writes
  into the command buffer when its scope is closed, when it collects, and when a scope
  is opened; they are recorded only when the instance has a profiler.
\<close>

datatype Command =
  CmdBegin "CommandBufferUsageFlagBits set"
  | CmdBeginRendering RenderingInfo
  | CmdEndRendering
  | CmdPipelineBarrier "PipelineStageFlagBits set" "PipelineStageFlagBits set"
      "DependencyFlagBits set" "nat list" "nat list" "ImageMemoryBarrier list"
  | CmdEnd
  | CmdProfilerScopeBegin
  | CmdProfilerScopeEnd
  | CmdProfilerCollect

record CommandBuffer =
  cb_handle :: nat
  cb_commands :: "Command list"

definition record_cmd :: "Command \<Rightarrow> CommandBuffer \<Rightarrow> CommandBuffer" where
  "record_cmd c cb = cb\<lparr>cb_commands := cb_commands cb @ [c]\<rparr>"

section \<open>Submission descriptions\<close>

text \<open>
  Modelled from the spec: \<open>SubmitInfo\<close>, declared in the scheduler's header, is the
  accumulator of wait semaphore and value pairs, signal semaphore and value pairs and an
  optional fence; the scheduler appends one signal pair and reads the lists.
\<close>

record SubmitInfo =
  wait_semas :: "vk_semaphore list"
  wait_ticks :: "tick list"
  signal_semas :: "vk_semaphore list"
  signal_ticks :: "tick list"
  fence :: "vk_fence option"

definition empty_SubmitInfo :: SubmitInfo where
  "empty_SubmitInfo =
     \<lparr>wait_semas = [], wait_ticks = [], signal_semas = [], signal_ticks = [], fence = None\<rparr>"

definition AddSignal :: "vk_semaphore \<Rightarrow> tick \<Rightarrow> SubmitInfo \<Rightarrow> SubmitInfo" where
  "AddSignal semaphore t info =
     info\<lparr>signal_semas := signal_semas info @ [semaphore],
          signal_ticks := signal_ticks info @ [t]\<rparr>"

text \<open>\<open>static_cast<u32>\<close> of a container size: the value modulo \<open>2 ^ 32\<close>.\<close>

definition u32_cast :: "nat \<Rightarrow> nat" where
  "u32_cast n = n mod 2 ^ 32"

record TimelineSemaphoreSubmitInfo =
  waitSemaphoreValueCount :: nat
  pWaitSemaphoreValues :: "tick list"
  signalSemaphoreValueCount :: nat
  pSignalSemaphoreValues :: "tick list"

record VkSubmitInfo =
  pNext :: TimelineSemaphoreSubmitInfo
  waitSemaphoreCount :: nat
  pWaitSemaphores :: "vk_semaphore list"
  pWaitDstStageMask :: "PipelineStageFlagBits set list"
  commandBufferCount :: nat
  pCommandBuffers :: CommandBuffer
  signalSemaphoreCount :: nat
  pSignalSemaphores :: "vk_semaphore list"

section \<open>Failures\<close>

text \<open>
  Every way a call of the scheduler can end without returning is a value:
  the process is terminated (with the critical log lines written just before and the
  message), the inline vector of barriers is pushed beyond its capacity, an attachment
  array is read out of range, the queue submission throws an error other than device
  loss (nothing catches it), or the calling thread blocks forever.

  Modelled from the spec: the macro \<^verbatim>\<open>UNREACHABLE_MSG\<close>, defined outside the unit,
  terminates the process.
\<close>

datatype LogLine = LogCritical PipelineStageFlagBits nat

datatype Failure =
  ProcessTerminated "LogLine list" string
  | CapacityOverflow
  | IndexOutOfRange
  | SubmitThrew
  | BlockedForever

section \<open>Tick authority, device and command pool\<close>

text \<open>
  Modelled from the spec: the Tick Authority (\<open>MasterSemaphore\<close>, whose code is not part
  of the unit). \<open>current_tick\<close> is the tick the next submission is assigned
  (\<open>peekNext\<close>), \<open>known_gpu_tick\<close> the last tick known complete (\<open>completed\<close>).
  The spec requires \<open>allocate\<close> to be strictly increasing across all calls, by exactly
  one, with no tick reused: the 64-bit counter never wraps, and a tick is a natural
  number. The scheduler itself only compares ticks. The spec fixes no initial readings;
  the model starts with completed tick 0 and first assignable tick 1.
\<close>

record MasterSemaphore =
  current_tick :: tick
  known_gpu_tick :: tick
  semaphore :: vk_semaphore

definition MasterSemaphore_init :: MasterSemaphore where
  "MasterSemaphore_init = \<lparr>current_tick = 1, known_gpu_tick = 0, semaphore = 0\<rparr>"

text \<open>
  Modelled from the spec: \<open>peekNext\<close> (\<open>CurrentTick\<close>), \<open>completed\<close>
  (\<open>KnownGpuTick\<close>), the test whether a tick is complete (\<open>IsFree\<close>, to which the
  scheduler's own \<open>IsFree\<close> delegates), \<open>allocate\<close> (\<open>NextTick\<close>, which returns the
  tick \<open>peekNext\<close> showed and moves the counter on by one) and the handle of the
  timeline semaphore.
\<close>

definition CurrentTick :: "MasterSemaphore \<Rightarrow> tick" where
  "CurrentTick ms = current_tick ms"

definition KnownGpuTick :: "MasterSemaphore \<Rightarrow> tick" where
  "KnownGpuTick ms = known_gpu_tick ms"

definition IsFree :: "MasterSemaphore \<Rightarrow> tick \<Rightarrow> bool" where
  "IsFree ms t = (t \<le> KnownGpuTick ms)"

definition NextTick :: "MasterSemaphore \<Rightarrow> tick \<times> MasterSemaphore" where
  "NextTick ms = (current_tick ms, ms\<lparr>current_tick := current_tick ms + 1\<rparr>)"

definition Handle :: "MasterSemaphore \<Rightarrow> vk_semaphore" where
  "Handle ms = semaphore ms"

text \<open>
  Modelled from the spec: the device behind the graphics queue and the timeline signal
  primitive. The device keeps the counter value of every semaphore. A submission accepted
  by the queue, which is the submit description and the fence handed to \<open>submit\<close> and
  nothing else, waits in \<open>in_flight\<close>. The device executes submissions in submission
  order and, finishing one, performs the signal operations of its description.
  \<open>executed\<close> keeps what has run. Waits on semaphores that others signal are taken to
  be satisfied in time, and fences are not followed.
\<close>

record Submission =
  sub_info :: VkSubmitInfo
  sub_fence :: "vk_fence option"

record Device =
  sem_values :: "vk_semaphore \<Rightarrow> tick"
  in_flight :: "Submission list"
  executed :: "Submission list"

definition Device_init :: Device where
  "Device_init = \<lparr>sem_values = (\<lambda>sem. 0), in_flight = [], executed = []\<rparr>"

definition submitted :: "Device \<Rightarrow> Submission list" where
  "submitted dev = executed dev @ in_flight dev"

text \<open>
  Modelled from the spec: the signal operations of a submit description, as the device
  reads them. It reads \<open>signalSemaphoreCount\<close> semaphores from \<open>pSignalSemaphores\<close> and
  \<open>signalSemaphoreValueCount\<close> values from the timeline description that \<open>pNext\<close>
  points to; the semaphore at an index is set to the value at the same index, in the
  order of the arrays. This is the only way a tick reaches the device.
\<close>

definition signal_pairs :: "VkSubmitInfo \<Rightarrow> (vk_semaphore \<times> tick) list" where
  "signal_pairs si =
     zip (take (signalSemaphoreCount si) (pSignalSemaphores si))
         (take (signalSemaphoreValueCount (pNext si)) (pSignalSemaphoreValues (pNext si)))"

fun apply_signals ::
    "(vk_semaphore \<times> tick) list \<Rightarrow> (vk_semaphore \<Rightarrow> tick) \<Rightarrow> (vk_semaphore \<Rightarrow> tick)" where
  "apply_signals [] vals = vals"
| "apply_signals ((sem, v) # ps) vals = apply_signals ps (vals(sem := v))"

text \<open>
  Modelled from the spec: the device finishes up to \<open>k\<close> of the submissions in flight.
\<close>

fun device_advance :: "nat \<Rightarrow> Device \<Rightarrow> Device" where
  "device_advance 0 dev = dev"
| "device_advance (Suc k) dev =
     (case in_flight dev of
        [] \<Rightarrow> dev
      | sub # rest \<Rightarrow>
          device_advance k
            (dev\<lparr>sem_values := apply_signals (signal_pairs (sub_info sub)) (sem_values dev),
                 in_flight := rest,
                 executed := executed dev @ [sub]\<rparr>))"

text \<open>
  Modelled from the spec: the device runs until the counter of the semaphore \<open>sem\<close> has
  reached \<open>t\<close>, finishing as few submissions as that takes: \<open>None\<close> when nothing in
  flight ever signals such a value.
\<close>

fun run_until :: "vk_semaphore \<Rightarrow> tick \<Rightarrow> (vk_semaphore \<Rightarrow> tick) \<Rightarrow> Submission list \<Rightarrow>
    Submission list \<Rightarrow> ((vk_semaphore \<Rightarrow> tick) \<times> Submission list \<times> Submission list) option" where
  "run_until sem t vals [] fin = (if t \<le> vals sem then Some (vals, [], fin) else None)"
| "run_until sem t vals (sub # rest) fin =
     (if t \<le> vals sem then Some (vals, sub # rest, fin)
      else run_until sem t (apply_signals (signal_pairs (sub_info sub)) vals) rest (fin @ [sub]))"

definition device_run_until :: "vk_semaphore \<Rightarrow> tick \<Rightarrow> Device \<Rightarrow> Device option" where
  "device_run_until sem t dev =
     (case run_until sem t (sem_values dev) (in_flight dev) (executed dev) of
        None \<Rightarrow> None
      | Some (vals, fl, fin) \<Rightarrow> Some \<lparr>sem_values = vals, in_flight = fl, executed = fin\<rparr>)"

text \<open>
  Modelled from the spec: \<open>refresh\<close> polls the device-side counter of the timeline
  semaphore and advances the completed tick if the device has progressed; it never
  regresses.
\<close>

definition Refresh :: "Device \<Rightarrow> MasterSemaphore \<Rightarrow> MasterSemaphore" where
  "Refresh dev ms =
     ms\<lparr>known_gpu_tick := max (known_gpu_tick ms) (sem_values dev (semaphore ms))\<rparr>"

text \<open>
  Modelled from the spec: \<open>wait(tick)\<close> of the Tick Authority blocks the calling thread
  until the completed tick is at least \<open>tick\<close>. It returns at once when that holds
  already; otherwise the device has to bring the timeline semaphore to the tick, after
  which it may have finished \<open>extra\<close> further submissions before the counter is read.
  When no submission in flight signals such a value the thread blocks forever.
\<close>

definition MasterSemaphore_Wait ::
    "nat \<Rightarrow> tick \<Rightarrow> Device \<Rightarrow> MasterSemaphore \<Rightarrow> Failure + (Device \<times> MasterSemaphore)" where
  "MasterSemaphore_Wait extra t dev ms =
     (if IsFree ms t then Inr (dev, ms)
      else (case device_run_until (semaphore ms) t dev of
              None \<Rightarrow> Inl BlockedForever
            | Some dev1 \<Rightarrow>
                (let dev2 = device_advance extra dev1 in Inr (dev2, Refresh dev2 ms))))"

text \<open>
  Modelled from the spec: the Command Buffer Pool. Every buffer carries the tick of the
  submission it was last committed for; \<open>commit\<close> recycles the least recently submitted
  buffer whose tick is complete, or allocates a new one. The buffer comes back empty:
  the begin of recording that the spec counts as part of committing is issued by
  \<^verbatim>\<open>AllocateWorkerCommandBuffers\<close>, in the source.
\<close>

record CommandPool =
  pool_ticks :: "tick list"

definition CommandPool_init :: CommandPool where
  "CommandPool_init = \<lparr>pool_ticks = []\<rparr>"

definition Commit :: "MasterSemaphore \<Rightarrow> CommandPool \<Rightarrow> CommandBuffer \<times> CommandPool" where
  "Commit ms pool =
     (let ticks = pool_ticks pool;
          free = filter (\<lambda>i. IsFree ms (ticks ! i)) [0 ..< length ticks]
      in if free = []
         then (\<lparr>cb_handle = length ticks, cb_commands = []\<rparr>,
               pool\<lparr>pool_ticks := ticks @ [CurrentTick ms]\<rparr>)
         else (let i = arg_min_list (\<lambda>i. ticks ! i) free
               in (\<lparr>cb_handle = i, cb_commands = []\<rparr>,
                   pool\<lparr>pool_ticks := ticks[i := CurrentTick ms]\<rparr>)))"

section \<open>The scheduler\<close>

text \<open>
  Modelled from the spec: what the \<open>Instance\<close> exposes to the scheduler, a profiling
  hook that may be absent and the optional capability to query diagnostic checkpoints.
\<close>

record Instance =
  profiler_ctx :: bool
  has_nv_checkpoints :: bool

text \<open>
  Modelled from the spec: a pending operation and the scheduler, both declared in the
  header. The scheduler has the members the source uses, then what lies outside the
  class and the calls act on: the device, and the callbacks of pending operations that
  have run, oldest first. A callback is known by a number only.
\<close>

record PendingOp =
  callback :: callback
  gpu_tick :: tick

record Scheduler =
  instance_ref :: Instance
  master_semaphore :: MasterSemaphore
  command_pool :: CommandPool
  current_cmdbuf :: CommandBuffer
  render_state :: RenderState
  is_rendering :: bool
  pending_ops :: "PendingOp list"
  profiler_scope :: bool
  device :: Device
  callbacks_run :: "callback list"

text \<open>
  What the device does during one submission: the result of the queue's \<open>submit\<close>, the
  checkpoint data the queue reports and the error's message, should the device be lost,
  and how many submissions in flight the device has finished when the scheduler polls
  the counter.
\<close>

datatype SubmitResult = SubmitOk | SubmitDeviceLost | SubmitOtherError

record DeviceResponse =
  submit_result :: SubmitResult
  checkpoint_data :: "(PipelineStageFlagBits \<times> nat) list"
  err_what :: string
  progress :: nat

subsection \<open>Render passes\<close>

definition barriers_capacity :: nat where
  "barriers_capacity = 9"

text \<open>\<open>push_back\<close> on the inline vector of capacity 9.\<close>

definition push_back :: "'a \<Rightarrow> 'a list \<Rightarrow> Failure + 'a list" where
  "push_back x v = (if length v < barriers_capacity then Inr (v @ [x]) else Inl CapacityOverflow)"

definition color_barrier :: "vk_image \<Rightarrow> ImageMemoryBarrier" where
  "color_barrier img =
     \<lparr>srcAccessMask = {eColorAttachmentWrite},
      dstAccessMask = {eShaderRead, eShaderWrite},
      oldLayout = eColorAttachmentOptimal,
      newLayout = eColorAttachmentOptimal,
      srcQueueFamilyIndex = VK_QUEUE_FAMILY_IGNORED,
      dstQueueFamilyIndex = VK_QUEUE_FAMILY_IGNORED,
      image = img,
      subresourceRange =
        \<lparr>aspectMask = {eColor}, baseMipLevel = 0, levelCount = VK_REMAINING_MIP_LEVELS,
         baseArrayLayer = 0, layerCount = VK_REMAINING_ARRAY_LAYERS\<rparr>\<rparr>"

definition depth_barrier :: "RenderState \<Rightarrow> ImageMemoryBarrier" where
  "depth_barrier rs =
     \<lparr>srcAccessMask = {eDepthStencilAttachmentWrite},
      dstAccessMask = {eShaderRead, eShaderWrite},
      oldLayout = imageLayout (depth_attachment rs),
      newLayout = imageLayout (depth_attachment rs),
      srcQueueFamilyIndex = VK_QUEUE_FAMILY_IGNORED,
      dstQueueFamilyIndex = VK_QUEUE_FAMILY_IGNORED,
      image = depth_image rs,
      subresourceRange =
        \<lparr>aspectMask = {eDepth} \<union> (if has_stencil rs then {eStencil} else {}),
         baseMipLevel = 0, levelCount = VK_REMAINING_MIP_LEVELS,
         baseArrayLayer = 0, layerCount = VK_REMAINING_ARRAY_LAYERS\<rparr>\<rparr>"

text \<open>The loop over the color attachments, from index \<open>i\<close>.\<close>

function color_barriers ::
    "RenderState \<Rightarrow> nat \<Rightarrow> ImageMemoryBarrier list \<Rightarrow> Failure + ImageMemoryBarrier list" where
  "color_barriers rs i barriers =
     (if i < num_color_attachments rs then
        (if i < length (color_images rs) then
           (case push_back (color_barrier (color_images rs ! i)) barriers of
              Inl e \<Rightarrow> Inl e
            | Inr barriers' \<Rightarrow> color_barriers rs (i + 1) barriers')
         else Inl IndexOutOfRange)
      else Inr barriers)"
  by pat_completeness auto
termination
  by (relation "measure (\<lambda>(rs, i, barriers). num_color_attachments rs - i)") auto

declare color_barriers.simps [simp del]

definition EndRendering :: "Scheduler \<Rightarrow> Failure + Scheduler" where
  "EndRendering s =
     (if \<not> is_rendering s then Inr s
      else
        (let s1 = s\<lparr>is_rendering := False,
                    current_cmdbuf := record_cmd CmdEndRendering (current_cmdbuf s)\<rparr>
         in case color_barriers (render_state s1) 0 [] of
              Inl e \<Rightarrow> Inl e
            | Inr barriers0 \<Rightarrow>
                (case (if has_depth (render_state s1)
                       then push_back (depth_barrier (render_state s1)) barriers0
                       else Inr barriers0) of
                   Inl e \<Rightarrow> Inl e
                 | Inr barriers \<Rightarrow>
                     (if barriers \<noteq> [] then
                        (let src_stages =
                               {eColorAttachmentOutput} \<union>
                               (if has_depth (render_state s1)
                                then {eLateFragmentTests, eEarlyFragmentTests} else {})
                         in Inr (s1\<lparr>current_cmdbuf :=
                                   record_cmd
                                     (CmdPipelineBarrier src_stages {eFragmentShader} {eByRegion}
                                        [] [] barriers)
                                     (current_cmdbuf s1)\<rparr>))
                      else Inr s1))))"

definition BeginRendering :: "RenderState \<Rightarrow> Scheduler \<Rightarrow> Failure + Scheduler" where
  "BeginRendering new_state s =
     (if is_rendering s \<and> render_state s = new_state then Inr s
      else
        (case EndRendering s of
           Inl e \<Rightarrow> Inl e
         | Inr s1 \<Rightarrow>
             (let s2 = s1\<lparr>is_rendering := True, render_state := new_state\<rparr>;
                  rendering_info =
                    \<lparr>renderArea_offset = (0, 0),
                     renderArea_extent = (width (render_state s2), height (render_state s2)),
                     ri_layerCount = 1,
                     colorAttachmentCount = num_color_attachments (render_state s2),
                     pColorAttachments = color_attachments (render_state s2),
                     pDepthAttachment =
                       (if has_depth (render_state s2)
                        then Some (depth_attachment (render_state s2)) else None),
                     pStencilAttachment =
                       (if has_stencil (render_state s2)
                        then Some (depth_attachment (render_state s2)) else None)\<rparr>
              in Inr (s2\<lparr>current_cmdbuf :=
                        record_cmd (CmdBeginRendering rendering_info) (current_cmdbuf s2)\<rparr>))))"

subsection \<open>Submission\<close>

definition AllocateWorkerCommandBuffers :: "Scheduler \<Rightarrow> Scheduler" where
  "AllocateWorkerCommandBuffers s =
     (let begin_info = {eOneTimeSubmit};
          (cmdbuf, pool) = Commit (master_semaphore s) (command_pool s);
          s1 = s\<lparr>command_pool := pool, current_cmdbuf := record_cmd (CmdBegin begin_info) cmdbuf\<rparr>
      in if profiler_ctx (instance_ref s1)
         then s1\<lparr>profiler_scope := True,
                 current_cmdbuf := record_cmd CmdProfilerScopeBegin (current_cmdbuf s1)\<rparr>
         else s1)"

definition wait_stage_masks :: "PipelineStageFlagBits set list" where
  "wait_stage_masks = [{eAllCommands}, {eColorAttachmentOutput}]"

definition make_timeline_si :: "SubmitInfo \<Rightarrow> TimelineSemaphoreSubmitInfo" where
  "make_timeline_si info =
     \<lparr>waitSemaphoreValueCount = u32_cast (length (wait_ticks info)),
      pWaitSemaphoreValues = wait_ticks info,
      signalSemaphoreValueCount = u32_cast (length (signal_ticks info)),
      pSignalSemaphoreValues = signal_ticks info\<rparr>"

definition make_submit_info :: "SubmitInfo \<Rightarrow> CommandBuffer \<Rightarrow> VkSubmitInfo" where
  "make_submit_info info cmdbuf =
     \<lparr>pNext = make_timeline_si info,
      waitSemaphoreCount = u32_cast (length (wait_semas info)),
      pWaitSemaphores = wait_semas info,
      pWaitDstStageMask = wait_stage_masks,
      commandBufferCount = 1,
      pCommandBuffers = cmdbuf,
      signalSemaphoreCount = u32_cast (length (signal_semas info)),
      pSignalSemaphores = signal_semas info\<rparr>"

text \<open>
  Modelled from the spec: the queue accepts the submit description and the fence, which
  are then in flight behind the earlier submissions.
\<close>

definition queue_submit :: "VkSubmitInfo \<Rightarrow> vk_fence option \<Rightarrow> Device \<Rightarrow> Device" where
  "queue_submit submit_info f dev =
     dev\<lparr>in_flight := in_flight dev @ [\<lparr>sub_info = submit_info, sub_fence = f\<rparr>]\<rparr>"

text \<open>The loop that applies the pending operations, oldest first.\<close>

fun apply_pending_ops ::
    "MasterSemaphore \<Rightarrow> PendingOp list \<Rightarrow> callback list \<Rightarrow> PendingOp list \<times> callback list" where
  "apply_pending_ops ms [] acc = ([], acc)"
| "apply_pending_ops ms (p # ops) acc =
     (if IsFree ms (gpu_tick p) then apply_pending_ops ms ops (acc @ [callback p])
      else (p # ops, acc))"

text \<open>
  \<open>info\<close> is passed by reference: the call returns it with the signal pair added.
  The submission mutex is held for the whole call and released on every way out.
\<close>

definition SubmitExecution ::
    "DeviceResponse \<Rightarrow> SubmitInfo \<Rightarrow> Scheduler \<Rightarrow> Failure + (Scheduler \<times> SubmitInfo)" where
  "SubmitExecution d info s =
     (let (signal_value, ms1) = NextTick (master_semaphore s);
          s1 = s\<lparr>master_semaphore := ms1\<rparr>;
          s2 = (if profiler_ctx (instance_ref s1)
                then s1\<lparr>profiler_scope := False,
                        current_cmdbuf :=
                          record_cmd CmdProfilerCollect
                            (record_cmd CmdProfilerScopeEnd (current_cmdbuf s1))\<rparr>
                else s1)
      in case EndRendering s2 of
           Inl e \<Rightarrow> Inl e
         | Inr s3 \<Rightarrow>
             (let s4 = s3\<lparr>current_cmdbuf := record_cmd CmdEnd (current_cmdbuf s3)\<rparr>;
                  timeline = Handle (master_semaphore s4);
                  info1 = AddSignal timeline signal_value info;
                  submit_info = make_submit_info info1 (current_cmdbuf s4)
              in case submit_result d of
                   SubmitDeviceLost \<Rightarrow>
                     Inl (ProcessTerminated
                            (if has_nv_checkpoints (instance_ref s4)
                             then map (\<lambda>(stage, marker). LogCritical stage marker)
                                    (checkpoint_data d)
                             else [])
                            (err_what d))
                 | SubmitOtherError \<Rightarrow> Inl SubmitThrew
                 | SubmitOk \<Rightarrow>
                     (let dev1 = queue_submit submit_info (fence info1) (device s4);
                          dev2 = device_advance (progress d) dev1;
                          s5 = s4\<lparr>device := dev2,
                                  master_semaphore := Refresh dev2 (master_semaphore s4)\<rparr>;
                          s6 = AllocateWorkerCommandBuffers s5;
                          (ops, acc) =
                            apply_pending_ops (master_semaphore s6) (pending_ops s6)
                              (callbacks_run s6)
                      in Inr (s6\<lparr>pending_ops := ops, callbacks_run := acc\<rparr>, info1))))"

definition Flush ::
    "DeviceResponse \<Rightarrow> SubmitInfo \<Rightarrow> Scheduler \<Rightarrow> Failure + (Scheduler \<times> SubmitInfo)" where
  "Flush d info s = SubmitExecution d info s"

text \<open>
  \<open>d\<close> is the device's response to the submission \<open>Wait\<close> forces, when it forces one;
  \<open>extra\<close> is passed to the Tick Authority's wait.
\<close>

definition Wait :: "DeviceResponse \<Rightarrow> nat \<Rightarrow> tick \<Rightarrow> Scheduler \<Rightarrow> Failure + Scheduler" where
  "Wait d extra t s =
     (case (if CurrentTick (master_semaphore s) \<le> t
            then (case Flush d empty_SubmitInfo s of
                    Inl e \<Rightarrow> Inl e
                  | Inr (s1, info) \<Rightarrow> Inr s1)
            else Inr s) of
        Inl e \<Rightarrow> Inl e
      | Inr s1 \<Rightarrow>
          (case MasterSemaphore_Wait extra t (device s1) (master_semaphore s1) of
             Inl e \<Rightarrow> Inl e
           | Inr (dev, ms) \<Rightarrow> Inr (s1\<lparr>device := dev, master_semaphore := ms\<rparr>)))"

text \<open>
  Modelled from the spec: the scheduler's own \<open>CurrentTick\<close>, declared in its header,
  reads the tick the next submission is assigned, the tick \<open>finish\<close> then waits for.
\<close>

definition Finish ::
    "DeviceResponse \<Rightarrow> DeviceResponse \<Rightarrow> nat \<Rightarrow> Scheduler \<Rightarrow> Failure + Scheduler" where
  "Finish d1 d2 extra s =
     (let presubmit_tick = CurrentTick (master_semaphore s)
      in case SubmitExecution d1 empty_SubmitInfo s of
           Inl e \<Rightarrow> Inl e
         | Inr (s1, info) \<Rightarrow> Wait d2 extra presubmit_tick s1)"

text \<open>
  The constructor. The initial values of \<open>is_rendering\<close> (no pass open), of the queue of
  pending operations (empty) and of the profiler scope are the header's, modelled from
  the spec; the initial render state, never read before it is assigned, is a parameter.
\<close>

definition Scheduler_init :: "Instance \<Rightarrow> RenderState \<Rightarrow> Scheduler" where
  "Scheduler_init inst rs0 =
     AllocateWorkerCommandBuffers
       \<lparr>instance_ref = inst,
        master_semaphore = MasterSemaphore_init,
        command_pool = CommandPool_init,
        current_cmdbuf = \<lparr>cb_handle = 0, cb_commands = []\<rparr>,
        render_state = rs0,
        is_rendering = False,
        pending_ops = [],
        profiler_scope = False,
        device = Device_init,
        callbacks_run = []\<rparr>"

subsection \<open>Sequences of calls\<close>

datatype Call =
  CallBeginRendering RenderState
  | CallEndRendering
  | CallFlush DeviceResponse SubmitInfo
  | CallFinish DeviceResponse DeviceResponse nat
  | CallWait DeviceResponse nat tick

fun step :: "Call \<Rightarrow> Scheduler \<Rightarrow> Failure + Scheduler" where
  "step (CallBeginRendering rs) s = BeginRendering rs s"
| "step CallEndRendering s = EndRendering s"
| "step (CallFlush d info) s =
     (case Flush d info s of Inl e \<Rightarrow> Inl e | Inr (s1, info1) \<Rightarrow> Inr s1)"
| "step (CallFinish d1 d2 extra) s = Finish d1 d2 extra s"
| "step (CallWait d extra t) s = Wait d extra t s"

text \<open>A run stops at the first call that does not return.\<close>

fun run :: "Call list \<Rightarrow> Scheduler \<Rightarrow> Failure + Scheduler" where
  "run [] s = Inr s"
| "run (c # cs) s = (case step c s of Inl e \<Rightarrow> Inl e | Inr s1 \<Rightarrow> run cs s1)"

section \<open>Notions used to state the properties\<close>

text \<open>
  What a list of recorded commands contains: the image memory barriers a command carries,
  whether it is a pipeline barrier, whether it begins a pass, and the number of passes
  begun in the current command buffer.
\<close>

fun image_barriers :: "Command \<Rightarrow> ImageMemoryBarrier list" where
  "image_barriers (CmdPipelineBarrier src dst flags mem buf imgs) = imgs"
| "image_barriers c = []"

fun is_pipeline_barrier :: "Command \<Rightarrow> bool" where
  "is_pipeline_barrier (CmdPipelineBarrier src dst flags mem buf imgs) = True"
| "is_pipeline_barrier c = False"

fun is_begin_rendering :: "Command \<Rightarrow> bool" where
  "is_begin_rendering (CmdBeginRendering info) = True"
| "is_begin_rendering c = False"

definition pass_begins :: "Scheduler \<Rightarrow> nat" where
  "pass_begins s = length (filter is_begin_rendering (cb_commands (current_cmdbuf s)))"

text \<open>
  A render state fits when it carries a color image for each of its color attachments and
  its barriers, one for each color attachment and one more with a depth attachment, are
  within the capacity of the inline vector.
\<close>

definition depth_count :: "RenderState \<Rightarrow> nat" where
  "depth_count rs = (if has_depth rs then 1 else 0)"

definition barriers_fit :: "RenderState \<Rightarrow> bool" where
  "barriers_fit rs =
     (num_color_attachments rs \<le> length (color_images rs) \<and>
      num_color_attachments rs + (if has_depth rs then 1 else 0) \<le> barriers_capacity)"

text \<open>
  For reasoning only: the barriers and the commands that \<open>EndRendering\<close> records for
  a render state that fits, the rendering description and the scheduler that
  \<open>BeginRendering\<close> leaves when it opens a pass, and the two halves of
  \<open>SubmitExecution\<close>, before and after the pass is closed. Lemmas
  \<open>EndRendering_fit\<close>, \<open>BeginRendering_other\<close> and \<open>SubmitExecution_stages\<close> tie
  them to the functions of the source.
\<close>

definition pass_barriers :: "RenderState \<Rightarrow> ImageMemoryBarrier list" where
  "pass_barriers rs =
     map (\<lambda>j. color_barrier (color_images rs ! j)) [0 ..< num_color_attachments rs] @
     (if has_depth rs then [depth_barrier rs] else [])"

definition pass_end_commands :: "RenderState \<Rightarrow> Command list" where
  "pass_end_commands rs =
     CmdEndRendering #
     (if pass_barriers rs = [] then []
      else [CmdPipelineBarrier
              ({eColorAttachmentOutput} \<union>
               (if has_depth rs then {eLateFragmentTests, eEarlyFragmentTests} else {}))
              {eFragmentShader} {eByRegion} [] [] (pass_barriers rs)])"

definition rendering_info_of :: "RenderState \<Rightarrow> RenderingInfo" where
  "rendering_info_of rs =
     \<lparr>renderArea_offset = (0, 0),
      renderArea_extent = (width rs, height rs),
      ri_layerCount = 1,
      colorAttachmentCount = num_color_attachments rs,
      pColorAttachments = color_attachments rs,
      pDepthAttachment = (if has_depth rs then Some (depth_attachment rs) else None),
      pStencilAttachment = (if has_stencil rs then Some (depth_attachment rs) else None)\<rparr>"

definition open_pass :: "RenderState \<Rightarrow> Scheduler \<Rightarrow> Scheduler" where
  "open_pass rs s =
     s\<lparr>is_rendering := True, render_state := rs,
       current_cmdbuf := record_cmd (CmdBeginRendering (rendering_info_of rs)) (current_cmdbuf s)\<rparr>"

definition pre_submit :: "Scheduler \<Rightarrow> Scheduler" where
  "pre_submit s =
     (let s1 = s\<lparr>master_semaphore := snd (NextTick (master_semaphore s))\<rparr>
      in if profiler_ctx (instance_ref s1)
         then s1\<lparr>profiler_scope := False,
                 current_cmdbuf :=
                   record_cmd CmdProfilerCollect
                     (record_cmd CmdProfilerScopeEnd (current_cmdbuf s1))\<rparr>
         else s1)"

definition queue_stage ::
    "DeviceResponse \<Rightarrow> SubmitInfo \<Rightarrow> tick \<Rightarrow> Scheduler \<Rightarrow> Failure + (Scheduler \<times> SubmitInfo)" where
  "queue_stage d info signal_value s3 =
     (let s4 = s3\<lparr>current_cmdbuf := record_cmd CmdEnd (current_cmdbuf s3)\<rparr>;
          timeline = Handle (master_semaphore s4);
          info1 = AddSignal timeline signal_value info;
          submit_info = make_submit_info info1 (current_cmdbuf s4)
      in case submit_result d of
           SubmitDeviceLost \<Rightarrow>
             Inl (ProcessTerminated
                    (if has_nv_checkpoints (instance_ref s4)
                     then map (\<lambda>(stage, marker). LogCritical stage marker) (checkpoint_data d)
                     else [])
                    (err_what d))
         | SubmitOtherError \<Rightarrow> Inl SubmitThrew
         | SubmitOk \<Rightarrow>
             (let dev1 = queue_submit submit_info (fence info1) (device s4);
                  dev2 = device_advance (progress d) dev1;
                  s5 = s4\<lparr>device := dev2,
                          master_semaphore := Refresh dev2 (master_semaphore s4)\<rparr>;
                  s6 = AllocateWorkerCommandBuffers s5;
                  (ops, acc) =
                    apply_pending_ops (master_semaphore s6) (pending_ops s6) (callbacks_run s6)
              in Inr (s6\<lparr>pending_ops := ops, callbacks_run := acc\<rparr>, info1)))"

definition termination_log :: "Instance \<Rightarrow> DeviceResponse \<Rightarrow> LogLine list" where
  "termination_log inst d =
     (if has_nv_checkpoints inst
      then map (\<lambda>(stage, marker). LogCritical stage marker) (checkpoint_data d)
      else [])"

text \<open>
  The tick the scheduler attached to a submission is the value of the last signal pair of
  its description, the one \<open>SubmitExecution\<close> adds. The value to which the device
  sets a semaphore when it executes a submission is the value of the last signal
  operation on that semaphore among those it reads, if there is one.
\<close>

definition sub_tick :: "Submission \<Rightarrow> tick" where
  "sub_tick sub = last (pSignalSemaphoreValues (pNext (sub_info sub)))"

definition timeline_signal :: "vk_semaphore \<Rightarrow> Submission \<Rightarrow> tick option" where
  "timeline_signal sem sub = map_of (rev (signal_pairs (sub_info sub))) sem"

text \<open>
  The spec describes a \<open>SubmitInfo\<close> as an accumulator of pairs of a semaphore and
  a value. \<open>info_ok\<close> says that of the signal lists a caller passes: one signal
  value for each signal semaphore, and no more of them than the 32-bit counts of the
  submit description can tell once the scheduler has added its pair. The empty
  \<open>SubmitInfo\<close> of \<open>Finish\<close> and \<open>Wait\<close> is such.
\<close>

definition info_ok :: "SubmitInfo \<Rightarrow> bool" where
  "info_ok info =
     (length (signal_semas info) = length (signal_ticks info) \<and>
      length (signal_semas info) + 1 < 2 ^ 32)"


text \<open>
  The invariant of the ticks: the completed tick is at most the device's counter of the
  timeline semaphore, that counter is below the next assignable tick, and the
  submissions in flight signal, on the timeline semaphore, exactly the ticks in between,
  in order. \<open>history_inv\<close> says that the submissions made so far carry the ticks
  from 1 up to the next assignable one. Both hold after the constructor;
  \<open>history_inv\<close> is kept by every call that returns, the invariant of the ticks by
  every call that returns and whose \<open>SubmitInfo\<close> is as the caller owes it (lemmas
  \<open>Scheduler_init_inv\<close>, \<open>run_history\<close> and \<open>run_inv\<close>).
\<close>

definition ticks_ok :: "Device \<Rightarrow> MasterSemaphore \<Rightarrow> bool" where
  "ticks_ok dev ms =
     (known_gpu_tick ms \<le> sem_values dev (semaphore ms) \<and>
      sem_values dev (semaphore ms) < current_tick ms \<and>
      map (timeline_signal (semaphore ms)) (in_flight dev) =
        map Some [Suc (sem_values dev (semaphore ms)) ..< current_tick ms])"

definition tick_inv :: "Scheduler \<Rightarrow> bool" where
  "tick_inv s = ticks_ok (device s) (master_semaphore s)"

definition history_inv :: "Scheduler \<Rightarrow> bool" where
  "history_inv s =
     (1 \<le> current_tick (master_semaphore s) \<and>
      map sub_tick (submitted (device s)) = [1 ..< current_tick (master_semaphore s)])"

text \<open>
  The commands of a command buffer just committed and begun, and the scheduler state in
  which no pass is open and the current command buffer is such a buffer.
\<close>

definition fresh_recording :: "Instance \<Rightarrow> Command list" where
  "fresh_recording inst =
     CmdBegin {eOneTimeSubmit} # (if profiler_ctx inst then [CmdProfilerScopeBegin] else [])"


text \<open>
  The Vulkan rule for the wait stage masks of a submit description: each of the
  \<open>waitSemaphoreCount\<close> semaphores waited on has its entry in the array of masks.
\<close>

definition stage_masks_cover :: "VkSubmitInfo \<Rightarrow> bool" where
  "stage_masks_cover si = (waitSemaphoreCount si \<le> length (pWaitDstStageMask si))"

text \<open>
  Concrete inputs: an instance with a profiler and the checkpoint capability, a render
  state with two color attachments and a depth attachment, one with nine color
  attachments and a depth attachment, one with all 8 slots in use and a depth
  attachment, the scheduler as constructed, a device that accepts
  a submission and one that is lost, a scheduler with three pending operations for the
  ticks 5, 6 and 7 whose completed tick is 6, and a \<open>SubmitInfo\<close> with two wait
  semaphores.
\<close>

definition example_instance :: Instance where
  "example_instance = \<lparr>profiler_ctx = True, has_nv_checkpoints = True\<rparr>"

definition example_render_state :: RenderState where
  "example_render_state =
     \<lparr>color_attachments =
        [\<lparr>imageView = 1, imageLayout = eColorAttachmentOptimal\<rparr>,
         \<lparr>imageView = 2, imageLayout = eColorAttachmentOptimal\<rparr>],
      color_images = [10, 11],
      depth_attachment = \<lparr>imageView = 3, imageLayout = eDepthStencilAttachmentOptimal\<rparr>,
      depth_image = 12,
      num_color_attachments = 2,
      has_depth = True,
      has_stencil = False,
      width = 640,
      height = 480\<rparr>"

definition overfull_render_state :: RenderState where
  "overfull_render_state =
     \<lparr>color_attachments =
        replicate 9 \<lparr>imageView = 1, imageLayout = eColorAttachmentOptimal\<rparr>,
      color_images = [10, 11, 12, 13, 14, 15, 16, 17, 18],
      depth_attachment = \<lparr>imageView = 3, imageLayout = eDepthStencilAttachmentOptimal\<rparr>,
      depth_image = 19,
      num_color_attachments = 9,
      has_depth = True,
      has_stencil = False,
      width = 640,
      height = 480\<rparr>"

definition full_render_state :: RenderState where
  "full_render_state =
     \<lparr>color_attachments =
        replicate 8 \<lparr>imageView = 1, imageLayout = eColorAttachmentOptimal\<rparr>,
      color_images = [10, 11, 12, 13, 14, 15, 16, 17],
      depth_attachment = \<lparr>imageView = 3, imageLayout = eDepthStencilAttachmentOptimal\<rparr>,
      depth_image = 18,
      num_color_attachments = 8,
      has_depth = True,
      has_stencil = True,
      width = 640,
      height = 480\<rparr>"

definition example_scheduler :: Scheduler where
  "example_scheduler = Scheduler_init example_instance example_render_state"

definition response_ok :: DeviceResponse where
  "response_ok = \<lparr>submit_result = SubmitOk, checkpoint_data = [], err_what = [], progress = 0\<rparr>"

definition response_lost :: DeviceResponse where
  "response_lost =
     \<lparr>submit_result = SubmitDeviceLost, checkpoint_data = [(eFragmentShader, 42)],
      err_what = ''ErrorDeviceLost'', progress = 0\<rparr>"

definition drain_example :: Scheduler where
  "drain_example =
     example_scheduler
       \<lparr>master_semaphore := \<lparr>current_tick = 7, known_gpu_tick = 6, semaphore = 0\<rparr>,
        device := \<lparr>sem_values = (\<lambda>sem. 6), in_flight = [], executed = []\<rparr>,
        pending_ops :=
          [\<lparr>callback = 50, gpu_tick = 5\<rparr>, \<lparr>callback = 60, gpu_tick = 6\<rparr>,
           \<lparr>callback = 70, gpu_tick = 7\<rparr>]\<rparr>"

definition two_waits :: SubmitInfo where
  "two_waits =
     \<lparr>wait_semas = [7, 8], wait_ticks = [1, 1], signal_semas = [9], signal_ticks = [1],
      fence = None\<rparr>"

section \<open>Render passes\<close>

lemma color_barriers_fit:
  "num_color_attachments rs \<le> length (color_images rs) \<Longrightarrow>
   length bs + (num_color_attachments rs - i) \<le> barriers_capacity \<Longrightarrow>
   color_barriers rs i bs =
     Inr (bs @ map (\<lambda>j. color_barrier (color_images rs ! j)) [i ..< num_color_attachments rs])"
proof (induction rs i bs rule: color_barriers.induct)
  case (1 rs i bs)
  show ?case
  proof (cases "i < num_color_attachments rs")
    case True
    with "1.prems" have lt: "i < length (color_images rs)" and room: "length bs < barriers_capacity"
      by auto
    have pb: "push_back (color_barrier (color_images rs ! i)) bs =
                Inr (bs @ [color_barrier (color_images rs ! i)])"
      using room by (simp add: push_back_def)
    have "color_barriers rs (i + 1) (bs @ [color_barrier (color_images rs ! i)]) =
            Inr ((bs @ [color_barrier (color_images rs ! i)]) @
                 map (\<lambda>j. color_barrier (color_images rs ! j)) [i + 1 ..< num_color_attachments rs])"
      using "1.IH"[OF True lt pb] "1.prems" True by simp
    then show ?thesis
      using True lt pb by (simp add: color_barriers.simps[of rs i bs] upt_conv_Cons)
  next
    case False
    then show ?thesis by (simp add: color_barriers.simps[of rs i bs])
  qed
qed

lemma color_barriers_Inr_length:
  "color_barriers rs i bs = Inr bs' \<Longrightarrow>
   length bs' = length bs + (num_color_attachments rs - i) \<and>
   (i < num_color_attachments rs \<longrightarrow>
      length bs' \<le> barriers_capacity \<and> num_color_attachments rs \<le> length (color_images rs))"
proof (induction rs i bs arbitrary: bs' rule: color_barriers.induct)
  case (1 rs i bs)
  show ?case
  proof (cases "i < num_color_attachments rs")
    case True
    from "1.prems" True have lt: "i < length (color_images rs)"
      by (auto simp: color_barriers.simps[of rs i bs] split: if_splits)
    from "1.prems" True lt obtain b1 where
      pb: "push_back (color_barrier (color_images rs ! i)) bs = Inr b1"
      and rec: "color_barriers rs (i + 1) b1 = Inr bs'"
      by (auto simp: color_barriers.simps[of rs i bs] split: sum.splits)
    from pb have b1: "b1 = bs @ [color_barrier (color_images rs ! i)]" "length bs < barriers_capacity"
      by (auto simp: push_back_def split: if_splits)
    from "1.IH"[OF True lt pb rec] have ih:
      "length bs' = length b1 + (num_color_attachments rs - (i + 1))"
      "i + 1 < num_color_attachments rs \<longrightarrow>
         length bs' \<le> barriers_capacity \<and> num_color_attachments rs \<le> length (color_images rs)"
      by auto
    show ?thesis
    proof (cases "i + 1 < num_color_attachments rs")
      case True
      with ih b1 \<open>i < num_color_attachments rs\<close> show ?thesis by auto
    next
      case False
      with True have "num_color_attachments rs = i + 1" by simp
      with ih b1 lt show ?thesis by auto
    qed
  next
    case False
    with "1.prems" show ?thesis by (simp add: color_barriers.simps[of rs i bs])
  qed
qed

lemma color_barriers_overflow:
  "color_barriers rs i bs = Inl CapacityOverflow \<Longrightarrow>
   barriers_capacity < length bs + (num_color_attachments rs - i)"
proof (induction rs i bs rule: color_barriers.induct)
  case (1 rs i bs)
  show ?case
  proof (cases "i < num_color_attachments rs")
    case True
    from "1.prems" True have lt: "i < length (color_images rs)"
      by (auto simp: color_barriers.simps[of rs i bs] split: if_splits)
    show ?thesis
    proof (cases "length bs < barriers_capacity")
      case room: True
      then have pb: "push_back (color_barrier (color_images rs ! i)) bs =
                Inr (bs @ [color_barrier (color_images rs ! i)])"
        by (simp add: push_back_def)
      from "1.prems" True lt pb have
        "color_barriers rs (i + 1) (bs @ [color_barrier (color_images rs ! i)]) = Inl CapacityOverflow"
        by (simp add: color_barriers.simps[of rs i bs])
      from "1.IH"[OF True lt pb this] True show ?thesis by simp
    next
      case False
      with True show ?thesis by simp
    qed
  next
    case False
    with "1.prems" show ?thesis by (simp add: color_barriers.simps[of rs i bs])
  qed
qed

lemma length_pass_barriers:
  "length (pass_barriers rs) = num_color_attachments rs + (if has_depth rs then 1 else 0)"
  by (simp add: pass_barriers_def)

lemma EndRendering_idle: "\<not> is_rendering s \<Longrightarrow> EndRendering s = Inr s"
  by (simp add: EndRendering_def)

lemma EndRendering_fit:
  assumes "is_rendering s" and "barriers_fit (render_state s)"
  shows "EndRendering s =
           Inr (s\<lparr>is_rendering := False,
                  current_cmdbuf :=
                    (current_cmdbuf s)\<lparr>cb_commands :=
                      cb_commands (current_cmdbuf s) @ pass_end_commands (render_state s)\<rparr>\<rparr>)"
proof -
  let ?rs = "render_state s"
  from assms(2) have n: "num_color_attachments ?rs \<le> length (color_images ?rs)"
    and cap: "num_color_attachments ?rs + (if has_depth ?rs then 1 else 0) \<le> barriers_capacity"
    by (simp_all add: barriers_fit_def)
  have cb: "color_barriers ?rs 0 [] =
              Inr (map (\<lambda>j. color_barrier (color_images ?rs ! j)) [0 ..< num_color_attachments ?rs])"
    using color_barriers_fit[of ?rs "[]" 0] n cap by (simp split: if_splits)
  show ?thesis
  proof (cases "has_depth ?rs")
    case True
    with cap have "num_color_attachments ?rs < barriers_capacity" by simp
    with True assms(1) cb show ?thesis
      by (simp add: EndRendering_def Let_def push_back_def pass_end_commands_def
            pass_barriers_def record_cmd_def)
  next
    case False
    with assms(1) cb show ?thesis
      by (simp add: EndRendering_def Let_def pass_end_commands_def pass_barriers_def
            record_cmd_def)
  qed
qed

lemma EndRendering_Inr_fit:
  assumes "is_rendering s" and "EndRendering s = Inr s'"
  shows "barriers_fit (render_state s)"
proof -
  let ?rs = "render_state s"
  from assms obtain b0 where cb: "color_barriers ?rs 0 [] = Inr b0"
    and dp: "has_depth ?rs \<longrightarrow> (\<exists>b. push_back (depth_barrier ?rs) b0 = Inr b)"
    by (auto simp: EndRendering_def Let_def split: sum.splits if_splits)
  from color_barriers_Inr_length[OF cb] have len: "length b0 = num_color_attachments ?rs"
    and fit: "0 < num_color_attachments ?rs \<longrightarrow>
        length b0 \<le> barriers_capacity \<and> num_color_attachments ?rs \<le> length (color_images ?rs)"
    by auto
  from dp have "has_depth ?rs \<longrightarrow> length b0 < barriers_capacity"
    by (auto simp: push_back_def split: if_splits)
  with len fit show ?thesis
    by (cases "num_color_attachments ?rs = 0") (auto simp: barriers_fit_def barriers_capacity_def)
qed

lemma EndRendering_overflow:
  assumes "EndRendering s = Inl CapacityOverflow"
  shows "is_rendering s \<and>
         barriers_capacity < num_color_attachments (render_state s) +
           (if has_depth (render_state s) then 1 else 0)"
proof -
  let ?rs = "render_state s"
  from assms have r: "is_rendering s" by (auto simp: EndRendering_def split: if_splits)
  show ?thesis
  proof (cases "color_barriers ?rs 0 []")
    case (Inl e)
    with assms r have "e = CapacityOverflow" by (simp add: EndRendering_def Let_def)
    with Inl color_barriers_overflow[of ?rs 0 "[]"] r show ?thesis by simp
  next
    case (Inr b0)
    with assms r have d: "has_depth ?rs" and "push_back (depth_barrier ?rs) b0 = Inl CapacityOverflow"
      by (auto simp: EndRendering_def Let_def split: if_splits sum.splits)
    then have "barriers_capacity \<le> length b0" by (auto simp: push_back_def split: if_splits)
    with color_barriers_Inr_length[OF Inr] d r show ?thesis by simp
  qed
qed

lemma EndRendering_fields:
  assumes "EndRendering s = Inr s'"
  shows "\<not> is_rendering s'" and "master_semaphore s' = master_semaphore s"
    and "device s' = device s" and "instance_ref s' = instance_ref s"
    and "pending_ops s' = pending_ops s" and "callbacks_run s' = callbacks_run s"
    and "command_pool s' = command_pool s" and "render_state s' = render_state s"
    and "profiler_scope s' = profiler_scope s"
    and "cb_handle (current_cmdbuf s') = cb_handle (current_cmdbuf s)"
    and "prefix (cb_commands (current_cmdbuf s)) (cb_commands (current_cmdbuf s'))"
proof -
  have "s' = s \<and> \<not> is_rendering s \<or>
        s' = s\<lparr>is_rendering := False,
                current_cmdbuf :=
                  (current_cmdbuf s)\<lparr>cb_commands :=
                    cb_commands (current_cmdbuf s) @ pass_end_commands (render_state s)\<rparr>\<rparr>"
  proof (cases "is_rendering s")
    case True
    from EndRendering_Inr_fit[OF True assms] have "barriers_fit (render_state s)" .
    from EndRendering_fit[OF True this] assms show ?thesis by simp
  next
    case False
    with assms show ?thesis by (simp add: EndRendering_idle)
  qed
  then show "\<not> is_rendering s'" "master_semaphore s' = master_semaphore s"
    "device s' = device s" "instance_ref s' = instance_ref s"
    "pending_ops s' = pending_ops s" "callbacks_run s' = callbacks_run s"
    "command_pool s' = command_pool s" "render_state s' = render_state s"
    "profiler_scope s' = profiler_scope s"
    "cb_handle (current_cmdbuf s') = cb_handle (current_cmdbuf s)"
    "prefix (cb_commands (current_cmdbuf s)) (cb_commands (current_cmdbuf s'))"
    by auto
qed

lemma color_barriers_exceeds:
  "num_color_attachments rs \<le> length (color_images rs) \<Longrightarrow>
   barriers_capacity < length bs + (num_color_attachments rs - i) \<Longrightarrow>
   length bs \<le> barriers_capacity \<Longrightarrow>
   color_barriers rs i bs = Inl CapacityOverflow"
proof (induction rs i bs rule: color_barriers.induct)
  case (1 rs i bs)
  from "1.prems" have lt: "i < num_color_attachments rs" by (cases "i < num_color_attachments rs") auto
  with "1.prems" have il: "i < length (color_images rs)" by simp
  show ?case
  proof (cases "length bs < barriers_capacity")
    case True
    then have pb: "push_back (color_barrier (color_images rs ! i)) bs =
                Inr (bs @ [color_barrier (color_images rs ! i)])"
      by (simp add: push_back_def)
    have "color_barriers rs (i + 1) (bs @ [color_barrier (color_images rs ! i)]) = Inl CapacityOverflow"
      using "1.IH"[OF lt il pb] "1.prems" lt True by simp
    with lt il pb show ?thesis by (simp add: color_barriers.simps[of rs i bs])
  next
    case False
    with lt il show ?thesis by (simp add: color_barriers.simps[of rs i bs] push_back_def)
  qed
qed

lemma EndRendering_exceeds:
  assumes "is_rendering s"
    and "num_color_attachments (render_state s) \<le> length (color_images (render_state s))"
    and "barriers_capacity < num_color_attachments (render_state s) + depth_count (render_state s)"
  shows "EndRendering s = Inl CapacityOverflow"
proof (cases "barriers_capacity < num_color_attachments (render_state s)")
  case True
  with assms(2) have "color_barriers (render_state s) 0 [] = Inl CapacityOverflow"
    by (intro color_barriers_exceeds) simp_all
  with assms(1) show ?thesis by (simp add: EndRendering_def Let_def)
next
  case False
  with assms(3) have d: "has_depth (render_state s)"
    and n: "num_color_attachments (render_state s) = barriers_capacity"
    by (auto simp: depth_count_def split: if_splits)
  from color_barriers_fit[of "render_state s" "[]" 0] assms(2) n
  have "color_barriers (render_state s) 0 [] =
          Inr (map (\<lambda>j. color_barrier (color_images (render_state s) ! j))
                 [0 ..< num_color_attachments (render_state s)])"
    by simp
  with assms(1) d n show ?thesis
    by (simp add: EndRendering_def Let_def push_back_def)
qed

lemma BeginRendering_same:
  "is_rendering s \<Longrightarrow> render_state s = rs \<Longrightarrow> BeginRendering rs s = Inr s"
  by (simp add: BeginRendering_def)

lemma BeginRendering_other:
  assumes "\<not> (is_rendering s \<and> render_state s = rs)" and "EndRendering s = Inr s1"
  shows "BeginRendering rs s = Inr (open_pass rs s1)"
  using assms by (auto simp: BeginRendering_def Let_def open_pass_def rendering_info_of_def)

lemma BeginRendering_Inr:
  assumes "BeginRendering rs s = Inr s1"
  shows "is_rendering s1 \<and> render_state s1 = rs \<and>
         pass_begins s1 = pass_begins s + (if is_rendering s \<and> render_state s = rs then 0 else 1)"
proof (cases "is_rendering s \<and> render_state s = rs")
  case True
  with assms show ?thesis by (simp add: BeginRendering_def)
next
  case False
  with assms obtain s0 where e: "EndRendering s = Inr s0"
    by (auto simp: BeginRendering_def split: sum.splits)
  from BeginRendering_other[OF False e] assms have s1: "s1 = open_pass rs s0" by simp
  have "filter is_begin_rendering (cb_commands (current_cmdbuf s0)) =
        filter is_begin_rendering (cb_commands (current_cmdbuf s))"
  proof (cases "is_rendering s")
    case True
    from EndRendering_fit[OF True EndRendering_Inr_fit[OF True e]] e show ?thesis
      by (auto simp: pass_end_commands_def)
  next
    case False
    with e show ?thesis by (simp add: EndRendering_idle)
  qed
  with False s1 show ?thesis
    by (simp add: open_pass_def pass_begins_def record_cmd_def)
qed

lemma run_replicate_same:
  "is_rendering s \<Longrightarrow> render_state s = rs \<Longrightarrow>
   run (replicate n (CallBeginRendering rs)) s = Inr s"
  by (induction n) (simp_all add: BeginRendering_same)

lemma Scheduler_init_idle: "\<not> is_rendering (Scheduler_init inst rs0)"
  by (simp add: Scheduler_init_def AllocateWorkerCommandBuffers_def Let_def split: prod.splits)

lemma open_pass_fields:
  "is_rendering (open_pass rs s)" "render_state (open_pass rs s) = rs"
  "pass_begins (open_pass rs s) = Suc (pass_begins s)"
  by (simp_all add: open_pass_def pass_begins_def record_cmd_def)

lemma BeginRendering_example:
  "BeginRendering rs example_scheduler = Inr (open_pass rs example_scheduler)"
proof -
  have idle: "\<not> is_rendering example_scheduler"
    by (simp add: example_scheduler_def Scheduler_init_idle)
  then have "EndRendering example_scheduler = Inr example_scheduler"
    by (rule EndRendering_idle)
  with idle show ?thesis by (simp add: BeginRendering_other)
qed

subsection \<open>Barriers at the end of a pass\<close>

text \<open>
  Claim C5. For every scheduler with a pass open over a render state with \<open>N\<close> color
  attachments in use, of the 8 slots a render state has, \<open>EndRendering\<close> returns and
  records, after the end of the pass, image memory barriers numbering exactly
  \<open>N + 1\<close> with a depth attachment and exactly \<open>N\<close> without, all of them in a
  single pipeline-barrier command (no such command when there is no barrier at all).
\<close>

theorem EndRendering_barrier_count:
  assumes "is_rendering s" and "RenderState_slots (render_state s)"
  shows "\<exists>s' cmds. EndRendering s = Inr s' \<and>
           cb_commands (current_cmdbuf s') = cb_commands (current_cmdbuf s) @ cmds \<and>
           length (concat (map image_barriers cmds)) =
             num_color_attachments (render_state s) + depth_count (render_state s) \<and>
           length (filter is_pipeline_barrier cmds) =
             (if num_color_attachments (render_state s) + depth_count (render_state s) = 0
              then 0 else 1)"
proof -
  from assms(2) have fit: "barriers_fit (render_state s)"
    by (simp add: RenderState_slots_def color_attachment_slots_def barriers_fit_def
          barriers_capacity_def)
  have len: "length (pass_barriers (render_state s)) =
               num_color_attachments (render_state s) + depth_count (render_state s)"
    by (simp add: length_pass_barriers depth_count_def)
  have emp: "(pass_barriers (render_state s) = []) =
               (num_color_attachments (render_state s) + depth_count (render_state s) = 0)"
    unfolding len[symmetric] by simp
  have "length (concat (map image_barriers (pass_end_commands (render_state s)))) =
          num_color_attachments (render_state s) + depth_count (render_state s)"
    by (simp add: pass_end_commands_def emp len)
  moreover have "length (filter is_pipeline_barrier (pass_end_commands (render_state s))) =
      (if num_color_attachments (render_state s) + depth_count (render_state s) = 0 then 0 else 1)"
    by (simp add: pass_end_commands_def emp)
  ultimately show ?thesis
    using EndRendering_fit[OF assms(1) fit] by simp
qed

theorem EndRendering_barrier_count_witness:
  "RenderState_slots full_render_state \<and>
   (\<exists>s' cmds. EndRendering (open_pass full_render_state example_scheduler) = Inr s' \<and>
     cb_commands (current_cmdbuf s') =
       cb_commands (current_cmdbuf (open_pass full_render_state example_scheduler)) @ cmds \<and>
     length (concat (map image_barriers cmds)) = 9 \<and>
     length (filter is_pipeline_barrier cmds) = 1)"
  using EndRendering_barrier_count[of "open_pass full_render_state example_scheduler"]
  by (simp add: open_pass_fields full_render_state_def depth_count_def RenderState_slots_def
        color_attachment_slots_def)

subsection \<open>Batching of identical passes\<close>

text \<open>
  Claim C6. \<open>BeginRendering\<close> with the render state of the pass that is open returns
  the scheduler unchanged: no pass is ended, none begun. And once \<open>BeginRendering\<close>
  has returned, any number of further calls with the same render state leave the
  scheduler as it is, so that the command buffer holds exactly one more pass-begin than
  before the first call (none more when that call already found the pass open).
\<close>

theorem BeginRendering_batches:
  "(is_rendering s \<and> render_state s = new_state \<longrightarrow> BeginRendering new_state s = Inr s) \<and>
   (BeginRendering new_state s = Inr s1 \<longrightarrow>
      run (replicate n (CallBeginRendering new_state)) s1 = Inr s1 \<and>
      is_rendering s1 \<and> render_state s1 = new_state \<and>
      pass_begins s1 =
        pass_begins s + (if is_rendering s \<and> render_state s = new_state then 0 else 1))"
proof (intro conjI impI)
  assume "is_rendering s \<and> render_state s = new_state"
  then show "BeginRendering new_state s = Inr s" by (simp add: BeginRendering_same)
next
  assume b: "BeginRendering new_state s = Inr s1"
  from BeginRendering_Inr[OF b] show "is_rendering s1" "render_state s1 = new_state"
    "pass_begins s1 =
       pass_begins s + (if is_rendering s \<and> render_state s = new_state then 0 else 1)"
    by blast+
  then show "run (replicate n (CallBeginRendering new_state)) s1 = Inr s1"
    by (simp only: run_replicate_same)
qed

theorem BeginRendering_batches_witness:
  "BeginRendering example_render_state (open_pass example_render_state example_scheduler) =
     Inr (open_pass example_render_state example_scheduler) \<and>
   BeginRendering example_render_state example_scheduler =
     Inr (open_pass example_render_state example_scheduler) \<and>
   run (replicate 5 (CallBeginRendering example_render_state))
     (open_pass example_render_state example_scheduler) =
     Inr (open_pass example_render_state example_scheduler) \<and>
   pass_begins (open_pass example_render_state example_scheduler) =
     pass_begins example_scheduler + 1"
proof -
  let ?s = "open_pass example_render_state example_scheduler"
  have r: "is_rendering ?s \<and> render_state ?s = example_render_state"
    by (simp add: open_pass_fields)
  have b: "BeginRendering example_render_state example_scheduler = Inr ?s"
    by (rule BeginRendering_example)
  have idle: "\<not> is_rendering example_scheduler"
    by (simp add: example_scheduler_def Scheduler_init_idle)
  from BeginRendering_batches[of ?s example_render_state ?s 5] r
  have 1: "BeginRendering example_render_state ?s = Inr ?s" by blast
  from BeginRendering_batches[of example_scheduler example_render_state ?s 5] b
  have 2: "run (replicate 5 (CallBeginRendering example_render_state)) ?s = Inr ?s"
    and 3: "pass_begins ?s =
      pass_begins example_scheduler +
      (if is_rendering example_scheduler \<and> render_state example_scheduler = example_render_state
       then 0 else 1)"
    by blast+
  from 3 idle have "pass_begins ?s = pass_begins example_scheduler + 1" by simp
  with 1 2 b show ?thesis by blast
qed

subsection \<open>Capacity of the inline vector\<close>

text \<open>
  Claim C10. The barriers are accumulated in an inline vector of capacity 9. With a pass
  open, \<open>EndRendering\<close> returns only if the number of color attachments, plus one with
  a depth attachment, is at most 9; under that bound the push beyond the capacity does
  not happen; and above it, when the color images are all there, it does.
\<close>

theorem EndRendering_capacity:
  assumes "is_rendering s"
  shows "barriers_capacity = 9 \<and>
    (\<forall>s'. EndRendering s = Inr s' \<longrightarrow>
       num_color_attachments (render_state s) + depth_count (render_state s) \<le> barriers_capacity) \<and>
    (num_color_attachments (render_state s) + depth_count (render_state s) \<le> barriers_capacity \<longrightarrow>
       EndRendering s \<noteq> Inl CapacityOverflow) \<and>
    (num_color_attachments (render_state s) \<le> length (color_images (render_state s)) \<and>
     barriers_capacity < num_color_attachments (render_state s) + depth_count (render_state s) \<longrightarrow>
       EndRendering s = Inl CapacityOverflow)"
proof -
  have a: "\<forall>s'. EndRendering s = Inr s' \<longrightarrow>
       num_color_attachments (render_state s) + depth_count (render_state s) \<le> barriers_capacity"
    using EndRendering_Inr_fit[OF assms] by (auto simp: barriers_fit_def depth_count_def)
  have b: "num_color_attachments (render_state s) + depth_count (render_state s) \<le> barriers_capacity \<longrightarrow>
       EndRendering s \<noteq> Inl CapacityOverflow"
    using EndRendering_overflow[of s] by (auto simp: depth_count_def)
  have c: "num_color_attachments (render_state s) \<le> length (color_images (render_state s)) \<and>
     barriers_capacity < num_color_attachments (render_state s) + depth_count (render_state s) \<longrightarrow>
       EndRendering s = Inl CapacityOverflow"
    using EndRendering_exceeds[OF assms] by simp
  from a b c show ?thesis by (simp add: barriers_capacity_def)
qed

theorem EndRendering_capacity_witness:
  "is_rendering (open_pass example_render_state example_scheduler) \<and>
   num_color_attachments example_render_state + depth_count example_render_state \<le> 9 \<and>
   EndRendering (open_pass example_render_state example_scheduler) \<noteq> Inl CapacityOverflow \<and>
   is_rendering (open_pass overfull_render_state example_scheduler) \<and>
   9 < num_color_attachments overfull_render_state + depth_count overfull_render_state \<and>
   EndRendering (open_pass overfull_render_state example_scheduler) = Inl CapacityOverflow"
proof -
  let ?a = "open_pass example_render_state example_scheduler"
  let ?b = "open_pass overfull_render_state example_scheduler"
  have ra: "is_rendering ?a" and rb: "is_rendering ?b"
    by (simp_all add: open_pass_fields)
  have na: "num_color_attachments (render_state ?a) + depth_count (render_state ?a) \<le> barriers_capacity"
    by (simp add: open_pass_fields example_render_state_def depth_count_def barriers_capacity_def)
  have nb: "num_color_attachments (render_state ?b) \<le> length (color_images (render_state ?b)) \<and>
      barriers_capacity < num_color_attachments (render_state ?b) + depth_count (render_state ?b)"
    by (simp add: open_pass_fields overfull_render_state_def depth_count_def barriers_capacity_def)
  from EndRendering_capacity[OF ra] na
  have 1: "EndRendering ?a \<noteq> Inl CapacityOverflow" by blast
  from EndRendering_capacity[OF rb] nb
  have 2: "EndRendering ?b = Inl CapacityOverflow" by blast
  from na nb have
    "num_color_attachments example_render_state + depth_count example_render_state \<le> 9"
    "9 < num_color_attachments overfull_render_state + depth_count overfull_render_state"
    by (simp_all add: open_pass_fields barriers_capacity_def)
  with ra rb 1 2 show ?thesis by blast
qed

section \<open>The device and the Tick Authority\<close>

lemma Cons_eq_map_upt:
  "(x # xs = map f [i ..< j]) = (i < j \<and> x = f i \<and> xs = map f [Suc i ..< j])"
proof (cases "i < j")
  case True
  then show ?thesis by (auto simp: upt_conv_Cons)
next
  case False
  then show ?thesis by simp
qed

lemma Nil_eq_map_upt: "([] = map f [i ..< j]) = (j \<le> i)"
  by auto

lemma apply_signals_append:
  "apply_signals (ps @ qs) vals = apply_signals qs (apply_signals ps vals)"
  by (induction ps arbitrary: vals) auto

lemma apply_signals_value:
  "apply_signals ps vals sem = (case map_of (rev ps) sem of None \<Rightarrow> vals sem | Some v \<Rightarrow> v)"
proof (induction ps arbitrary: vals)
  case Nil
  then show ?case by simp
next
  case (Cons p ps)
  obtain x v where p: "p = (x, v)" by (cases p)
  have "apply_signals ps (vals(x := v)) sem =
          (case map_of (rev ps) sem of None \<Rightarrow> (vals(x := v)) sem | Some w \<Rightarrow> w)"
    by (rule Cons.IH)
  with p show ?case
    by (simp add: map_add_def split: option.splits)
qed

lemma execute_timeline_signal:
  "timeline_signal sem sub = Some k \<Longrightarrow>
   apply_signals (signal_pairs (sub_info sub)) vals sem = k"
  by (simp add: apply_signals_value timeline_signal_def)

lemma device_advance_submitted: "submitted (device_advance k dev) = submitted dev"
proof (induction k arbitrary: dev)
  case 0
  then show ?case by simp
next
  case (Suc k)
  show ?case
  proof (cases "in_flight dev")
    case Nil
    then show ?thesis by simp
  next
    case (Cons sub rest)
    then show ?thesis by (simp add: Suc.IH) (simp add: submitted_def)
  qed
qed

lemma run_until_submitted:
  "run_until sem t vals fl fin = Some (vals', fl', fin') \<Longrightarrow> fin' @ fl' = fin @ fl"
  by (induction fl arbitrary: vals fin) (auto split: if_splits)

lemma device_advance_ticks:
  "map (timeline_signal sem) (in_flight dev) = map Some [Suc (sem_values dev sem) ..< n] \<Longrightarrow>
   sem_values dev sem < n \<Longrightarrow>
   map (timeline_signal sem) (in_flight (device_advance k dev)) =
     map Some [Suc (sem_values (device_advance k dev) sem) ..< n] \<and>
   sem_values (device_advance k dev) sem < n \<and>
   sem_values dev sem \<le> sem_values (device_advance k dev) sem"
proof (induction k arbitrary: dev)
  case 0
  then show ?case by simp
next
  case (Suc k)
  show ?case
  proof (cases "in_flight dev")
    case Nil
    with Suc.prems show ?thesis by simp
  next
    case (Cons sub rest)
    let ?dev = "dev\<lparr>sem_values := apply_signals (signal_pairs (sub_info sub)) (sem_values dev),
                     in_flight := rest, executed := executed dev @ [sub]\<rparr>"
    from Suc.prems Cons have c: "Suc (sem_values dev sem) < n"
      "timeline_signal sem sub = Some (Suc (sem_values dev sem))"
      "map (timeline_signal sem) rest = map Some [Suc (Suc (sem_values dev sem)) ..< n]"
      by (auto simp: Cons_eq_map_upt)
    from execute_timeline_signal[OF c(2), of "sem_values dev"]
    have v: "sem_values ?dev sem = Suc (sem_values dev sem)" by simp
    with c have "map (timeline_signal sem) (in_flight ?dev) = map Some [Suc (sem_values ?dev sem) ..< n]"
      "sem_values ?dev sem < n"
      by simp_all
    from Suc.IH[OF this] v Cons show ?thesis by simp
  qed
qed

lemma run_until_ticks:
  "map (timeline_signal sem) fl = map Some [Suc (vals sem) ..< n] \<Longrightarrow> vals sem < n \<Longrightarrow>
   (t < n \<longrightarrow>
      (\<exists>vals' fl' fin'. run_until sem t vals fl fin = Some (vals', fl', fin') \<and>
         t \<le> vals' sem \<and> vals sem \<le> vals' sem \<and> vals' sem < n \<and>
         map (timeline_signal sem) fl' = map Some [Suc (vals' sem) ..< n])) \<and>
   (n \<le> t \<longrightarrow> run_until sem t vals fl fin = None)"
proof (induction fl arbitrary: vals fin)
  case Nil
  then show ?case by (auto simp: Nil_eq_map_upt)
next
  case (Cons sub rest)
  let ?vals = "apply_signals (signal_pairs (sub_info sub)) vals"
  from Cons.prems have c: "Suc (vals sem) < n" "timeline_signal sem sub = Some (Suc (vals sem))"
    "map (timeline_signal sem) rest = map Some [Suc (Suc (vals sem)) ..< n]"
    by (auto simp: Cons_eq_map_upt)
  from execute_timeline_signal[OF c(2), of vals] have v: "?vals sem = Suc (vals sem)" .
  with c have "map (timeline_signal sem) rest = map Some [Suc (?vals sem) ..< n]" "?vals sem < n"
    by simp_all
  note ih = Cons.IH[of ?vals "fin @ [sub]", OF this]
  show ?case
  proof (cases "t \<le> vals sem")
    case True
    with Cons.prems show ?thesis by simp
  next
    case False
    with ih v c show ?thesis by auto
  qed
qed

lemma MasterSemaphore_Wait_history:
  assumes "MasterSemaphore_Wait extra t dev ms = Inr (dev', ms')"
  shows "current_tick ms' = current_tick ms" and "semaphore ms' = semaphore ms"
    and "submitted dev' = submitted dev" and "known_gpu_tick ms \<le> known_gpu_tick ms'"
proof -
  have "current_tick ms' = current_tick ms \<and> semaphore ms' = semaphore ms \<and>
        submitted dev' = submitted dev \<and> known_gpu_tick ms \<le> known_gpu_tick ms'"
  proof (cases "IsFree ms t")
    case True
    with assms show ?thesis by (simp add: MasterSemaphore_Wait_def)
  next
    case False
    with assms obtain vals1 fl1 fin1 where
      ru: "run_until (semaphore ms) t (sem_values dev) (in_flight dev) (executed dev) =
             Some (vals1, fl1, fin1)"
      and res: "dev' = device_advance extra \<lparr>sem_values = vals1, in_flight = fl1, executed = fin1\<rparr>"
        "ms' = Refresh dev' ms"
      by (auto simp: MasterSemaphore_Wait_def device_run_until_def Let_def
            split: option.splits)
    from run_until_submitted[OF ru] res show ?thesis
      by (simp add: device_advance_submitted Refresh_def) (simp add: submitted_def)
  qed
  then show "current_tick ms' = current_tick ms" and "semaphore ms' = semaphore ms"
    and "submitted dev' = submitted dev" and "known_gpu_tick ms \<le> known_gpu_tick ms'"
    by simp_all
qed

lemma MasterSemaphore_Wait_Inr:
  assumes "ticks_ok dev ms" and "MasterSemaphore_Wait extra t dev ms = Inr (dev', ms')"
  shows "t \<le> known_gpu_tick ms'" and "ticks_ok dev' ms'"
proof -
  have "t \<le> known_gpu_tick ms' \<and> ticks_ok dev' ms'"
  proof (cases "IsFree ms t")
    case True
    with assms show ?thesis
      by (simp add: MasterSemaphore_Wait_def IsFree_def KnownGpuTick_def)
  next
    case False
    let ?T = "semaphore ms"
    from False assms(2) obtain vals1 fl1 fin1 where
      ru: "run_until ?T t (sem_values dev) (in_flight dev) (executed dev) = Some (vals1, fl1, fin1)"
      and res: "dev' = device_advance extra \<lparr>sem_values = vals1, in_flight = fl1, executed = fin1\<rparr>"
        "ms' = Refresh dev' ms"
      by (auto simp: MasterSemaphore_Wait_def device_run_until_def Let_def
            split: option.splits)
    let ?n = "current_tick ms"
    let ?d1 = "\<lparr>sem_values = vals1, in_flight = fl1, executed = fin1\<rparr>"
    from assms(1) have ok:
      "map (timeline_signal ?T) (in_flight dev) = map Some [Suc (sem_values dev ?T) ..< ?n]"
      "sem_values dev ?T < ?n" "known_gpu_tick ms \<le> sem_values dev ?T"
      by (simp_all add: ticks_ok_def)
    have tn: "t < ?n"
    proof (rule ccontr)
      assume "\<not> t < ?n"
      with run_until_ticks[where sem = "semaphore ms" and vals = "sem_values dev" and fl = "in_flight dev"
        and n = "current_tick ms" and t = t and fin = "executed dev", OF ok(1,2)] ru show False by simp
    qed
    with run_until_ticks[where sem = "semaphore ms" and vals = "sem_values dev" and fl = "in_flight dev"
        and n = "current_tick ms" and t = t and fin = "executed dev", OF ok(1,2)] ru
    have r: "t \<le> vals1 ?T" "sem_values dev ?T \<le> vals1 ?T" "vals1 ?T < ?n"
      "map (timeline_signal ?T) fl1 = map Some [Suc (vals1 ?T) ..< ?n]"
      by auto
    then have "map (timeline_signal ?T) (in_flight ?d1) = map Some [Suc (sem_values ?d1 ?T) ..< ?n]"
      "sem_values ?d1 ?T < ?n"
      by simp_all
    from device_advance_ticks[OF this, of extra] res(1) r
    have a: "map (timeline_signal ?T) (in_flight dev') = map Some [Suc (sem_values dev' ?T) ..< ?n]"
      "sem_values dev' ?T < ?n" "vals1 ?T \<le> sem_values dev' ?T"
      by simp_all
    with r ok res(2) show ?thesis
      by (simp add: ticks_ok_def Refresh_def)
  qed
  then show "t \<le> known_gpu_tick ms'" and "ticks_ok dev' ms'" by simp_all
qed

lemma MasterSemaphore_Wait_returns:
  assumes "ticks_ok dev ms" and "t < current_tick ms"
  shows "\<exists>dev' ms'. MasterSemaphore_Wait extra t dev ms = Inr (dev', ms')"
proof -
  from assms(1) have ok:
    "map (timeline_signal (semaphore ms)) (in_flight dev) =
       map Some [Suc (sem_values dev (semaphore ms)) ..< current_tick ms]"
    "sem_values dev (semaphore ms) < current_tick ms"
    by (simp_all add: ticks_ok_def)
  from run_until_ticks[where sem = "semaphore ms" and vals = "sem_values dev"
      and fl = "in_flight dev" and n = "current_tick ms" and t = t and fin = "executed dev",
      OF ok] assms(2)
  obtain r where
    "run_until (semaphore ms) t (sem_values dev) (in_flight dev) (executed dev) = Some r"
    by auto
  then show ?thesis
    by (cases r) (simp add: MasterSemaphore_Wait_def device_run_until_def Let_def)
qed

lemma MasterSemaphore_Wait_blocks:
  assumes "ticks_ok dev ms" and "current_tick ms \<le> t"
  shows "MasterSemaphore_Wait extra t dev ms = Inl BlockedForever"
proof -
  from assms(1) have ok:
    "map (timeline_signal (semaphore ms)) (in_flight dev) =
       map Some [Suc (sem_values dev (semaphore ms)) ..< current_tick ms]"
    "sem_values dev (semaphore ms) < current_tick ms"
    "known_gpu_tick ms \<le> sem_values dev (semaphore ms)"
    by (simp_all add: ticks_ok_def)
  from run_until_ticks[where sem = "semaphore ms" and vals = "sem_values dev" and fl = "in_flight dev"
        and n = "current_tick ms" and t = t and fin = "executed dev", OF ok(1,2)] assms(2)
  have "run_until (semaphore ms) t (sem_values dev) (in_flight dev) (executed dev) = None"
    by simp
  moreover from ok assms(2) have "\<not> IsFree ms t"
    by (simp add: IsFree_def KnownGpuTick_def)
  ultimately show ?thesis
    by (simp add: MasterSemaphore_Wait_def device_run_until_def)
qed

section \<open>Submission\<close>

lemma AllocateWorkerCommandBuffers_fields:
  "master_semaphore (AllocateWorkerCommandBuffers s) = master_semaphore s"
  "device (AllocateWorkerCommandBuffers s) = device s"
  "is_rendering (AllocateWorkerCommandBuffers s) = is_rendering s"
  "pending_ops (AllocateWorkerCommandBuffers s) = pending_ops s"
  "callbacks_run (AllocateWorkerCommandBuffers s) = callbacks_run s"
  "instance_ref (AllocateWorkerCommandBuffers s) = instance_ref s"
  "render_state (AllocateWorkerCommandBuffers s) = render_state s"
  "cb_commands (current_cmdbuf (AllocateWorkerCommandBuffers s)) = fresh_recording (instance_ref s)"
  by (simp_all add: AllocateWorkerCommandBuffers_def Commit_def Let_def record_cmd_def
        fresh_recording_def split: prod.splits)

lemma SubmitExecution_stages:
  "SubmitExecution d info s =
     (case EndRendering (pre_submit s) of
        Inl e \<Rightarrow> Inl e
      | Inr s3 \<Rightarrow> queue_stage d info (current_tick (master_semaphore s)) s3)"
  by (simp add: SubmitExecution_def pre_submit_def queue_stage_def NextTick_def Let_def
        split: sum.splits)

lemma pre_submit_fields:
  "master_semaphore (pre_submit s) =
     (master_semaphore s)\<lparr>current_tick := current_tick (master_semaphore s) + 1\<rparr>"
  "device (pre_submit s) = device s" "instance_ref (pre_submit s) = instance_ref s"
  "pending_ops (pre_submit s) = pending_ops s" "callbacks_run (pre_submit s) = callbacks_run s"
  "is_rendering (pre_submit s) = is_rendering s" "render_state (pre_submit s) = render_state s"
  "cb_handle (current_cmdbuf (pre_submit s)) = cb_handle (current_cmdbuf s)"
  "prefix (cb_commands (current_cmdbuf s)) (cb_commands (current_cmdbuf (pre_submit s)))"
  by (simp_all add: pre_submit_def NextTick_def Let_def record_cmd_def)

lemma queue_stage_Inr:
  assumes "queue_stage d info t s3 = Inr (s', info')"
  shows "submit_result d = SubmitOk"
    and "info' = AddSignal (semaphore (master_semaphore s3)) t info"
    and "device s' =
           device_advance (progress d)
             (queue_submit (make_submit_info info' (record_cmd CmdEnd (current_cmdbuf s3)))
                (fence info') (device s3))"
    and "master_semaphore s' = Refresh (device s') (master_semaphore s3)"
    and "is_rendering s' = is_rendering s3"
    and "cb_commands (current_cmdbuf s') = fresh_recording (instance_ref s3)"
    and "instance_ref s' = instance_ref s3"
    and "render_state s' = render_state s3"
    and "(pending_ops s', callbacks_run s') =
           apply_pending_ops (master_semaphore s') (pending_ops s3) (callbacks_run s3)"
proof -
  from assms show ok: "submit_result d = SubmitOk"
    by (cases "submit_result d") (simp_all add: queue_stage_def Let_def)
  let ?info1 = "AddSignal (semaphore (master_semaphore s3)) t info"
  let ?dev2 = "device_advance (progress d)
         (queue_submit (make_submit_info ?info1 (record_cmd CmdEnd (current_cmdbuf s3)))
            (fence ?info1) (device s3))"
  let ?s6 = "AllocateWorkerCommandBuffers
               (s3\<lparr>current_cmdbuf := record_cmd CmdEnd (current_cmdbuf s3), device := ?dev2,
                    master_semaphore := Refresh ?dev2 (master_semaphore s3)\<rparr>)"
  let ?r = "apply_pending_ops (master_semaphore ?s6) (pending_ops ?s6) (callbacks_run ?s6)"
  have "queue_stage d info t s3 =
          Inr (?s6\<lparr>pending_ops := fst ?r, callbacks_run := snd ?r\<rparr>, ?info1)"
    using ok by (simp add: queue_stage_def Let_def Handle_def case_prod_beta)
  with assms have "Inr (s', info') =
      (Inr (?s6\<lparr>pending_ops := fst ?r, callbacks_run := snd ?r\<rparr>, ?info1)
         :: Failure + (Scheduler \<times> SubmitInfo))"
    by (simp only:)
  then have res: "s' = ?s6\<lparr>pending_ops := fst ?r, callbacks_run := snd ?r\<rparr>"
    "info' = ?info1"
    by blast+
  show "info' = ?info1" by (rule res)
  show "device s' =
           device_advance (progress d)
             (queue_submit (make_submit_info info' (record_cmd CmdEnd (current_cmdbuf s3)))
                (fence info') (device s3))"
    by (simp add: res AllocateWorkerCommandBuffers_fields)
  show "master_semaphore s' = Refresh (device s') (master_semaphore s3)"
    by (simp add: res AllocateWorkerCommandBuffers_fields)
  show "is_rendering s' = is_rendering s3" "instance_ref s' = instance_ref s3"
    "render_state s' = render_state s3"
    "cb_commands (current_cmdbuf s') = fresh_recording (instance_ref s3)"
    by (simp_all add: res(1) AllocateWorkerCommandBuffers_fields)
  show "(pending_ops s', callbacks_run s') =
           apply_pending_ops (master_semaphore s') (pending_ops s3) (callbacks_run s3)"
    by (simp add: res(1) AllocateWorkerCommandBuffers_fields)
qed

lemma SubmitExecution_Inr:
  assumes "SubmitExecution d info s = Inr (s', info')"
  shows "\<exists>cmdbuf.
     submit_result d = SubmitOk \<and>
     info' = AddSignal (semaphore (master_semaphore s)) (current_tick (master_semaphore s)) info \<and>
     cb_handle cmdbuf = cb_handle (current_cmdbuf s) \<and>
     prefix (cb_commands (current_cmdbuf s)) (cb_commands cmdbuf) \<and>
     device s' =
       device_advance (progress d)
         (queue_submit (make_submit_info info' cmdbuf) (fence info') (device s)) \<and>
     master_semaphore s' =
       Refresh (device s')
         ((master_semaphore s)\<lparr>current_tick := current_tick (master_semaphore s) + 1\<rparr>) \<and>
     \<not> is_rendering s' \<and>
     cb_commands (current_cmdbuf s') = fresh_recording (instance_ref s) \<and>
     instance_ref s' = instance_ref s \<and>
     (pending_ops s', callbacks_run s') =
       apply_pending_ops (master_semaphore s') (pending_ops s) (callbacks_run s) \<and>
     (is_rendering s \<longrightarrow> barriers_fit (render_state s))"
proof -
  from assms obtain s3 where e: "EndRendering (pre_submit s) = Inr s3"
    and q: "queue_stage d info (current_tick (master_semaphore s)) s3 = Inr (s', info')"
    by (auto simp: SubmitExecution_stages split: sum.splits)
  note f = EndRendering_fields[OF e]
  note p = pre_submit_fields[of s]
  note r = queue_stage_Inr[OF q]
  have fit: "is_rendering s \<longrightarrow> barriers_fit (render_state s)"
    using EndRendering_Inr_fit[OF _ e] p by auto
  let ?cmdbuf = "record_cmd CmdEnd (current_cmdbuf s3)"
  have c: "cb_handle ?cmdbuf = cb_handle (current_cmdbuf s)"
    "prefix (cb_commands (current_cmdbuf s)) (cb_commands ?cmdbuf)"
    using f(10,11) p(8,9) by (auto simp: record_cmd_def intro: prefix_order.trans)
  show ?thesis
    apply (rule exI[of _ ?cmdbuf])
    using fit c r f(1-6) p(1-5)
    by simp
qed

lemma SubmitExecution_returns:
  assumes "submit_result d = SubmitOk" and "is_rendering s \<longrightarrow> barriers_fit (render_state s)"
  shows "\<exists>s' info'. SubmitExecution d info s = Inr (s', info')"
proof -
  have "\<exists>s3. EndRendering (pre_submit s) = Inr s3"
    using EndRendering_fit[of "pre_submit s"] EndRendering_idle[of "pre_submit s"] assms(2)
    by (cases "is_rendering s") (auto simp: pre_submit_fields)
  then obtain s3 where e: "EndRendering (pre_submit s) = Inr s3" ..
  with assms(1) show ?thesis
    by (simp add: SubmitExecution_stages queue_stage_def Let_def case_prod_beta)
qed

lemma info_ok_empty: "info_ok empty_SubmitInfo"
  by (simp add: info_ok_def empty_SubmitInfo_def)

lemma signal_pairs_AddSignal:
  assumes "info_ok info"
  shows "signal_pairs (make_submit_info (AddSignal T t info) cmdbuf) =
           zip (signal_semas info) (signal_ticks info) @ [(T, t)]"
proof -
  from assms have l: "length (signal_semas info) = length (signal_ticks info)"
    and b: "Suc (length (signal_ticks info)) < 2 ^ 32"
    by (simp_all add: info_ok_def)
  from b have "Suc (length (signal_ticks info)) mod 2 ^ 32 = Suc (length (signal_ticks info))"
    by (rule mod_less)
  with l show ?thesis
    by (simp add: signal_pairs_def make_submit_info_def make_timeline_si_def AddSignal_def
          u32_cast_def)
qed

lemma timeline_signal_AddSignal:
  assumes "info_ok info"
  shows "timeline_signal T \<lparr>sub_info = make_submit_info (AddSignal T t info) cmdbuf, sub_fence = f\<rparr>
           = Some t"
  by (simp add: timeline_signal_def signal_pairs_AddSignal[OF assms])

lemma sub_tick_AddSignal:
  "sub_tick \<lparr>sub_info = make_submit_info (AddSignal T t info) cmdbuf, sub_fence = f\<rparr> = t"
  by (simp add: sub_tick_def make_submit_info_def make_timeline_si_def AddSignal_def)

lemma submit_history:
  "submitted (device_advance k (queue_submit si f dev)) =
     submitted dev @ [\<lparr>sub_info = si, sub_fence = f\<rparr>]"
  by (simp add: device_advance_submitted) (simp add: submitted_def queue_submit_def)

lemma submit_ticks_ok:
  assumes "ticks_ok dev ms"
    and "timeline_signal (semaphore ms) \<lparr>sub_info = si, sub_fence = f\<rparr> = Some (current_tick ms)"
  shows "ticks_ok
           (device_advance k (queue_submit si f dev))
           (Refresh (device_advance k (queue_submit si f dev))
              (ms\<lparr>current_tick := current_tick ms + 1\<rparr>))"
proof -
  let ?n = "current_tick ms"
  let ?T = "semaphore ms"
  let ?d1 = "queue_submit si f dev"
  from assms(1) have ok:
      "map (timeline_signal ?T) (in_flight dev) = map Some [Suc (sem_values dev ?T) ..< ?n]"
      "sem_values dev ?T < ?n" "known_gpu_tick ms \<le> sem_values dev ?T"
    by (simp_all add: ticks_ok_def)
  with assms(2) have
    "map (timeline_signal ?T) (in_flight ?d1) = map Some [Suc (sem_values ?d1 ?T) ..< Suc ?n]"
    "sem_values ?d1 ?T < Suc ?n"
    by (simp_all add: queue_submit_def)
  from device_advance_ticks[OF this, of k] ok(3)
  show ?thesis
    by (simp add: ticks_ok_def Refresh_def queue_submit_def)
qed

lemma SubmitExecution_history:
  assumes "SubmitExecution d info s = Inr (s', info')"
  shows "current_tick (master_semaphore s') = current_tick (master_semaphore s) + 1"
    and "known_gpu_tick (master_semaphore s) \<le> known_gpu_tick (master_semaphore s')"
    and "\<exists>sub. submitted (device s') = submitted (device s) @ [sub] \<and>
           sub_tick sub = current_tick (master_semaphore s) \<and>
           cb_handle (pCommandBuffers (sub_info sub)) = cb_handle (current_cmdbuf s) \<and>
           prefix (cb_commands (current_cmdbuf s)) (cb_commands (pCommandBuffers (sub_info sub)))"
proof -
  from SubmitExecution_Inr[OF assms] obtain cmdbuf where
    i: "info' = AddSignal (semaphore (master_semaphore s)) (current_tick (master_semaphore s)) info"
    and c: "cb_handle cmdbuf = cb_handle (current_cmdbuf s)"
      "prefix (cb_commands (current_cmdbuf s)) (cb_commands cmdbuf)"
    and d: "device s' =
       device_advance (progress d)
         (queue_submit (make_submit_info info' cmdbuf) (fence info') (device s))"
    and m: "master_semaphore s' =
       Refresh (device s')
         ((master_semaphore s)\<lparr>current_tick := current_tick (master_semaphore s) + 1\<rparr>)"
    by blast
  from m show "current_tick (master_semaphore s') = current_tick (master_semaphore s) + 1"
    by (simp add: Refresh_def)
  from m show "known_gpu_tick (master_semaphore s) \<le> known_gpu_tick (master_semaphore s')"
    by (simp add: Refresh_def)
  let ?sub = "\<lparr>sub_info = make_submit_info info' cmdbuf, sub_fence = fence info'\<rparr>"
  from d have "submitted (device s') = submitted (device s) @ [?sub]"
    by (simp only: submit_history)
  moreover from i have "sub_tick ?sub = current_tick (master_semaphore s)"
    by (simp only: sub_tick_AddSignal)
  moreover from c have "cb_handle (pCommandBuffers (sub_info ?sub)) = cb_handle (current_cmdbuf s)"
    "prefix (cb_commands (current_cmdbuf s)) (cb_commands (pCommandBuffers (sub_info ?sub)))"
    by (simp_all add: make_submit_info_def)
  ultimately show "\<exists>sub. submitted (device s') = submitted (device s) @ [sub] \<and>
           sub_tick sub = current_tick (master_semaphore s) \<and>
           cb_handle (pCommandBuffers (sub_info sub)) = cb_handle (current_cmdbuf s) \<and>
           prefix (cb_commands (current_cmdbuf s)) (cb_commands (pCommandBuffers (sub_info sub)))"
    by blast
qed

lemma SubmitExecution_ticks:
  assumes "tick_inv s" and "info_ok info" and "SubmitExecution d info s = Inr (s', info')"
  shows "tick_inv s'"
    and "timeline_signal (semaphore (master_semaphore s)) (last (submitted (device s'))) =
           Some (current_tick (master_semaphore s))"
proof -
  from SubmitExecution_Inr[OF assms(3)] obtain cmdbuf where
    i: "info' = AddSignal (semaphore (master_semaphore s)) (current_tick (master_semaphore s)) info"
    and d: "device s' =
       device_advance (progress d)
         (queue_submit (make_submit_info info' cmdbuf) (fence info') (device s))"
    and m: "master_semaphore s' =
       Refresh (device s')
         ((master_semaphore s)\<lparr>current_tick := current_tick (master_semaphore s) + 1\<rparr>)"
    by blast
  from assms(1) have ok: "ticks_ok (device s) (master_semaphore s)"
    by (simp add: tick_inv_def)
  from i have sig: "timeline_signal (semaphore (master_semaphore s))
      \<lparr>sub_info = make_submit_info info' cmdbuf, sub_fence = fence info'\<rparr> =
      Some (current_tick (master_semaphore s))"
    by (simp only: timeline_signal_AddSignal[OF assms(2)])
  from submit_ticks_ok[OF ok sig, of "progress d"] d m
  show "tick_inv s'" by (simp add: tick_inv_def)
  from d have "submitted (device s') = submitted (device s) @
      [\<lparr>sub_info = make_submit_info info' cmdbuf, sub_fence = fence info'\<rparr>]"
    by (simp only: submit_history)
  with sig show "timeline_signal (semaphore (master_semaphore s)) (last (submitted (device s'))) =
           Some (current_tick (master_semaphore s))"
    by simp
qed

lemma Wait_unforced:
  assumes "t < current_tick (master_semaphore s)"
  shows "Wait d extra t s =
           (case MasterSemaphore_Wait extra t (device s) (master_semaphore s) of
              Inl e \<Rightarrow> Inl e
            | Inr (dev, ms) \<Rightarrow> Inr (s\<lparr>device := dev, master_semaphore := ms\<rparr>))"
  using assms by (simp add: Wait_def CurrentTick_def)

lemma Wait_forced:
  assumes "current_tick (master_semaphore s) \<le> t"
  shows "Wait d extra t s =
           (case Flush d empty_SubmitInfo s of
              Inl e \<Rightarrow> Inl e
            | Inr (s1, info) \<Rightarrow>
                (case MasterSemaphore_Wait extra t (device s1) (master_semaphore s1) of
                   Inl e \<Rightarrow> Inl e
                 | Inr (dev, ms) \<Rightarrow> Inr (s1\<lparr>device := dev, master_semaphore := ms\<rparr>)))"
  using assms by (simp add: Wait_def CurrentTick_def split: sum.splits)

lemma Wait_Inr:
  assumes "tick_inv s" and "Wait d extra t s = Inr s'"
  shows "tick_inv s'" and "t \<le> known_gpu_tick (master_semaphore s')"
    and "known_gpu_tick (master_semaphore s) \<le> known_gpu_tick (master_semaphore s')"
    and "prefix (submitted (device s)) (submitted (device s'))"
    and "t < current_tick (master_semaphore s) \<longrightarrow>
           current_tick (master_semaphore s') = current_tick (master_semaphore s) \<and>
           submitted (device s') = submitted (device s)"
    and "current_tick (master_semaphore s) \<le> t \<longrightarrow>
           current_tick (master_semaphore s') = current_tick (master_semaphore s) + 1 \<and>
           (\<exists>sub. submitted (device s') = submitted (device s) @ [sub] \<and>
                  sub_tick sub = current_tick (master_semaphore s))"
proof -
  have "tick_inv s' \<and> t \<le> known_gpu_tick (master_semaphore s') \<and>
        known_gpu_tick (master_semaphore s) \<le> known_gpu_tick (master_semaphore s') \<and>
        prefix (submitted (device s)) (submitted (device s')) \<and>
        (t < current_tick (master_semaphore s) \<longrightarrow>
           current_tick (master_semaphore s') = current_tick (master_semaphore s) \<and>
           submitted (device s') = submitted (device s)) \<and>
        (current_tick (master_semaphore s) \<le> t \<longrightarrow>
           current_tick (master_semaphore s') = current_tick (master_semaphore s) + 1 \<and>
           (\<exists>sub. submitted (device s') = submitted (device s) @ [sub] \<and>
                  sub_tick sub = current_tick (master_semaphore s)))"
  proof (cases "t < current_tick (master_semaphore s)")
    case True
    with assms(2) obtain dev ms where
      w: "MasterSemaphore_Wait extra t (device s) (master_semaphore s) = Inr (dev, ms)"
      and s': "s' = s\<lparr>device := dev, master_semaphore := ms\<rparr>"
      by (auto simp: Wait_unforced split: sum.splits)
    from assms(1) have ok: "ticks_ok (device s) (master_semaphore s)" by (simp add: tick_inv_def)
    from MasterSemaphore_Wait_Inr[OF ok w] MasterSemaphore_Wait_history[OF w] s' True
    show ?thesis
      by (simp add: tick_inv_def)
  next
    case False
    then have le: "current_tick (master_semaphore s) \<le> t" by simp
    with assms(2) obtain s1 info1 dev ms where
      fl: "SubmitExecution d empty_SubmitInfo s = Inr (s1, info1)"
      and w: "MasterSemaphore_Wait extra t (device s1) (master_semaphore s1) = Inr (dev, ms)"
      and s': "s' = s1\<lparr>device := dev, master_semaphore := ms\<rparr>"
      by (auto simp: Wait_forced Flush_def split: sum.splits)
    note se = SubmitExecution_ticks(1)[OF assms(1) info_ok_empty fl]
    note sh = SubmitExecution_history[OF fl]
    from se have ok: "ticks_ok (device s1) (master_semaphore s1)" by (simp add: tick_inv_def)
    from MasterSemaphore_Wait_Inr[OF ok w] MasterSemaphore_Wait_history[OF w] s' se sh le
    show ?thesis
      by (auto simp: tick_inv_def)
  qed
  then show "tick_inv s'" and "t \<le> known_gpu_tick (master_semaphore s')"
    and "known_gpu_tick (master_semaphore s) \<le> known_gpu_tick (master_semaphore s')"
    and "prefix (submitted (device s)) (submitted (device s'))"
    and "t < current_tick (master_semaphore s) \<longrightarrow>
           current_tick (master_semaphore s') = current_tick (master_semaphore s) \<and>
           submitted (device s') = submitted (device s)"
    and "current_tick (master_semaphore s) \<le> t \<longrightarrow>
           current_tick (master_semaphore s') = current_tick (master_semaphore s) + 1 \<and>
           (\<exists>sub. submitted (device s') = submitted (device s) @ [sub] \<and>
                  sub_tick sub = current_tick (master_semaphore s))"
    by blast+
qed






lemma color_barriers_failure:
  "color_barriers rs i bs = Inl e \<Longrightarrow> e = CapacityOverflow \<or> e = IndexOutOfRange"
proof (induction rs i bs rule: color_barriers.induct)
  case (1 rs i bs)
  show ?case
  proof (cases "i < num_color_attachments rs \<and> i < length (color_images rs)")
    case True
    show ?thesis
    proof (cases "push_back (color_barrier (color_images rs ! i)) bs")
      case (Inl e')
      with True "1.prems" show ?thesis
        by (auto simp: color_barriers.simps[of rs i bs] push_back_def split: if_splits)
    next
      case (Inr b1)
      with True "1.prems" have "color_barriers rs (i + 1) b1 = Inl e"
        by (simp add: color_barriers.simps[of rs i bs])
      with "1.IH"[of b1] True Inr show ?thesis by simp
    qed
  next
    case False
    with "1.prems" show ?thesis
      by (auto simp: color_barriers.simps[of rs i bs] split: if_splits)
  qed
qed

lemma EndRendering_failure:
  assumes "EndRendering s = Inl e"
  shows "e = CapacityOverflow \<or> e = IndexOutOfRange"
proof (cases "color_barriers (render_state s) 0 []")
  case (Inl e')
  with assms have "e' = e" by (auto simp: EndRendering_def Let_def split: if_splits)
  with Inl color_barriers_failure show ?thesis by blast
next
  case (Inr b0)
  with assms show ?thesis
    by (auto simp: EndRendering_def Let_def push_back_def split: if_splits sum.splits)
qed

lemma SubmitExecution_never_blocks: "SubmitExecution d info s \<noteq> Inl BlockedForever"
proof
  assume a: "SubmitExecution d info s = Inl BlockedForever"
  show False
  proof (cases "EndRendering (pre_submit s)")
    case (Inl e)
    with a have "e = BlockedForever" by (simp add: SubmitExecution_stages)
    with Inl EndRendering_failure show False by blast
  next
    case (Inr s3)
    with a show False
      by (cases "submit_result d")
         (simp_all add: SubmitExecution_stages queue_stage_def Let_def case_prod_beta)
  qed
qed

lemma Scheduler_init_fields:
  "master_semaphore (Scheduler_init inst rs0) = MasterSemaphore_init"
  "device (Scheduler_init inst rs0) = Device_init"
  "instance_ref (Scheduler_init inst rs0) = inst"
  "pending_ops (Scheduler_init inst rs0) = []"
  "callbacks_run (Scheduler_init inst rs0) = []"
  "cb_commands (current_cmdbuf (Scheduler_init inst rs0)) = fresh_recording inst"
  by (simp_all add: Scheduler_init_def AllocateWorkerCommandBuffers_fields)

lemma Scheduler_init_inv:
  "tick_inv (Scheduler_init inst rs0)" "history_inv (Scheduler_init inst rs0)"
  by (simp_all add: tick_inv_def ticks_ok_def history_inv_def Scheduler_init_fields
        MasterSemaphore_init_def Device_init_def submitted_def)









section \<open>The claims on submission\<close>

lemma example_scheduler_facts:
  "tick_inv example_scheduler" "history_inv example_scheduler"
  "\<not> is_rendering example_scheduler"
  by (simp_all add: example_scheduler_def Scheduler_init_inv Scheduler_init_idle)

subsection \<open>Finish\<close>



subsection \<open>Wait\<close>

text \<open>
  Claim C2. For every tick \<open>t\<close> that is at least the next assignable tick, \<open>Wait\<close>
  first flushes with an empty \<open>SubmitInfo\<close> and only then delegates to the wait of the
  Tick Authority. For \<open>t\<close> equal to the next assignable tick the call never blocks
  forever, the completed tick and the device's counter of the timeline semaphore are at
  least \<open>t\<close> whenever it returns, and it does return when the queue accepts the
  forced submission and the open pass, if any, can be closed. The state is one that
  satisfies the invariant of the ticks, as every state reached from the constructor does
  when the callers pass semaphores paired with values (lemma \<open>reachable_tick_inv\<close>).
\<close>

theorem Wait_forces_submission:
  assumes "tick_inv s" and "current_tick (master_semaphore s) \<le> t"
  shows "Wait d extra t s =
           (case Flush d empty_SubmitInfo s of
              Inl e \<Rightarrow> Inl e
            | Inr (s1, info) \<Rightarrow>
                (case MasterSemaphore_Wait extra t (device s1) (master_semaphore s1) of
                   Inl e \<Rightarrow> Inl e
                 | Inr (dev, ms) \<Rightarrow> Inr (s1\<lparr>device := dev, master_semaphore := ms\<rparr>))) \<and>
         (t = current_tick (master_semaphore s) \<longrightarrow>
            Wait d extra t s \<noteq> Inl BlockedForever \<and>
            (\<forall>s'. Wait d extra t s = Inr s' \<longrightarrow>
               t \<le> known_gpu_tick (master_semaphore s') \<and>
               t \<le> sem_values (device s') (semaphore (master_semaphore s'))) \<and>
            (submit_result d = SubmitOk \<and> (is_rendering s \<longrightarrow> barriers_fit (render_state s)) \<longrightarrow>
               (\<exists>s'. Wait d extra t s = Inr s')))"
proof (intro conjI impI allI)
  show "Wait d extra t s =
           (case Flush d empty_SubmitInfo s of
              Inl e \<Rightarrow> Inl e
            | Inr (s1, info) \<Rightarrow>
                (case MasterSemaphore_Wait extra t (device s1) (master_semaphore s1) of
                   Inl e \<Rightarrow> Inl e
                 | Inr (dev, ms) \<Rightarrow> Inr (s1\<lparr>device := dev, master_semaphore := ms\<rparr>)))"
    by (rule Wait_forced[OF assms(2)])
next
  fix s' assume w: "Wait d extra t s = Inr s'"
  from Wait_Inr(2)[OF assms(1) w] show "t \<le> known_gpu_tick (master_semaphore s')" .
next
  fix s' assume w: "Wait d extra t s = Inr s'"
  from Wait_Inr(1,2)[OF assms(1) w]
  show "t \<le> sem_values (device s') (semaphore (master_semaphore s'))"
    by (simp add: tick_inv_def ticks_ok_def)
next
  assume t: "t = current_tick (master_semaphore s)"
  have after: "\<exists>s'. Wait d extra t s = Inr s'"
    if se: "SubmitExecution d empty_SubmitInfo s = Inr (s1, info1)" for s1 info1
  proof -
    note a = SubmitExecution_ticks(1)[OF assms(1) info_ok_empty se] SubmitExecution_history[OF se]
    from a(1) have ok: "ticks_ok (device s1) (master_semaphore s1)" by (simp add: tick_inv_def)
    from a(2) t have "t < current_tick (master_semaphore s1)" by simp
    from MasterSemaphore_Wait_returns[OF ok this, of extra] se show ?thesis
      by (auto simp: Wait_forced[OF assms(2)] Flush_def)
  qed
  show "Wait d extra t s \<noteq> Inl BlockedForever"
  proof (cases "SubmitExecution d empty_SubmitInfo s")
    case (Inl e)
    with SubmitExecution_never_blocks[of d empty_SubmitInfo s] show ?thesis
      by (simp add: Wait_forced[OF assms(2)] Flush_def)
  next
    case (Inr r)
    with after[of "fst r" "snd r"] show ?thesis by auto
  qed
  {
    assume "submit_result d = SubmitOk \<and> (is_rendering s \<longrightarrow> barriers_fit (render_state s))"
    then obtain s1 info1 where "SubmitExecution d empty_SubmitInfo s = Inr (s1, info1)"
      using SubmitExecution_returns[of d s empty_SubmitInfo] by blast
    from after[OF this] show "\<exists>s'. Wait d extra t s = Inr s'" .
  }
qed

theorem Wait_forces_submission_witness:
  "tick_inv example_scheduler \<and>
   current_tick (master_semaphore example_scheduler) \<le> current_tick (master_semaphore example_scheduler) \<and>
   submit_result response_ok = SubmitOk \<and> \<not> is_rendering example_scheduler \<and>
   Wait response_ok 0 (current_tick (master_semaphore example_scheduler)) example_scheduler
     \<noteq> Inl BlockedForever \<and>
   (\<exists>s'. Wait response_ok 0 (current_tick (master_semaphore example_scheduler)) example_scheduler
            = Inr s' \<and>
          current_tick (master_semaphore example_scheduler) \<le> known_gpu_tick (master_semaphore s') \<and>
          current_tick (master_semaphore example_scheduler) \<le>
            sem_values (device s') (semaphore (master_semaphore s')))"
proof -
  have ok: "submit_result response_ok = SubmitOk" by (simp add: response_ok_def)
  note t = Wait_forces_submission[OF example_scheduler_facts(1) order_refl, of response_ok 0]
  from t ok example_scheduler_facts(3)
  obtain s' where
    "Wait response_ok 0 (current_tick (master_semaphore example_scheduler)) example_scheduler = Inr s'"
    by blast
  with t ok example_scheduler_facts show ?thesis by blast
qed

lemma Wait_beyond_next:
  assumes "tick_inv s" and "current_tick (master_semaphore s) < t"
  shows "Wait d extra t s \<noteq> Inr s'"
proof
  assume w: "Wait d extra t s = Inr s'"
  from assms(2) have le: "current_tick (master_semaphore s) \<le> t" by simp
  from w obtain s1 info1 dev ms where
    se: "SubmitExecution d empty_SubmitInfo s = Inr (s1, info1)"
    and m: "MasterSemaphore_Wait extra t (device s1) (master_semaphore s1) = Inr (dev, ms)"
    by (auto simp: Wait_forced[OF le] Flush_def split: sum.splits)
  note a = SubmitExecution_ticks(1)[OF assms(1) info_ok_empty se] SubmitExecution_history[OF se]
  from a(1) have ok: "ticks_ok (device s1) (master_semaphore s1)" by (simp add: tick_inv_def)
  from a(2) assms(2) have "current_tick (master_semaphore s1) \<le> t" by simp
  from MasterSemaphore_Wait_blocks[OF ok this, of extra] m show False by simp
qed

subsection \<open>Ticks along a sequence of calls\<close>



subsection \<open>Pending operations\<close>

lemma apply_pending_ops_eq:
  "apply_pending_ops ms ops acc =
     (dropWhile (\<lambda>p. IsFree ms (gpu_tick p)) ops,
      acc @ map callback (takeWhile (\<lambda>p. IsFree ms (gpu_tick p)) ops))"
  by (induction ops arbitrary: acc) simp_all

lemma filter_not_takeWhile: "filter (\<lambda>x. \<not> P x) (takeWhile P xs) = []"
  by (induction xs) simp_all

lemma filter_not_dropWhile: "filter (\<lambda>x. \<not> P x) (dropWhile P xs) = filter (\<lambda>x. \<not> P x) xs"
proof -
  have "filter (\<lambda>x. \<not> P x) xs = filter (\<lambda>x. \<not> P x) (takeWhile P xs @ dropWhile P xs)"
    by simp
  also have "\<dots> = filter (\<lambda>x. \<not> P x) (dropWhile P xs)"
    by (simp only: filter_append filter_not_takeWhile append_Nil)
  finally show ?thesis by simp
qed

text \<open>
  Claim C3. For every queue of pending operations and every submission that returns, the
  callbacks run by the submission are those of the longest prefix of the queue whose
  target ticks are at most the completed tick, in the order of the queue; the rest of the
  queue stays as it was, and with it every operation whose target tick is later than the
  completed tick.
\<close>

theorem pending_ops_drain:
  assumes "SubmitExecution d info s = Inr (s', info')"
  shows "callbacks_run s' =
           callbacks_run s @
           map callback
             (takeWhile (\<lambda>p. gpu_tick p \<le> known_gpu_tick (master_semaphore s')) (pending_ops s)) \<and>
         pending_ops s' =
           dropWhile (\<lambda>p. gpu_tick p \<le> known_gpu_tick (master_semaphore s')) (pending_ops s) \<and>
         pending_ops s =
           takeWhile (\<lambda>p. gpu_tick p \<le> known_gpu_tick (master_semaphore s')) (pending_ops s) @
           pending_ops s' \<and>
         filter (\<lambda>p. \<not> gpu_tick p \<le> known_gpu_tick (master_semaphore s')) (pending_ops s') =
           filter (\<lambda>p. \<not> gpu_tick p \<le> known_gpu_tick (master_semaphore s')) (pending_ops s)"
proof -
  from SubmitExecution_Inr[OF assms] have
    "(pending_ops s', callbacks_run s') =
       apply_pending_ops (master_semaphore s') (pending_ops s) (callbacks_run s)"
    by blast
  then have p: "pending_ops s' =
      dropWhile (\<lambda>p. gpu_tick p \<le> known_gpu_tick (master_semaphore s')) (pending_ops s)"
    and c: "callbacks_run s' = callbacks_run s @
      map callback
        (takeWhile (\<lambda>p. gpu_tick p \<le> known_gpu_tick (master_semaphore s')) (pending_ops s))"
    by (simp_all add: apply_pending_ops_eq IsFree_def KnownGpuTick_def)
  from p c show ?thesis
    by (simp add: filter_not_dropWhile)
qed

lemma drain_example_submit:
  assumes "SubmitExecution response_ok empty_SubmitInfo drain_example = Inr (s', info')"
  shows "known_gpu_tick (master_semaphore s') = 6"
proof -
  from SubmitExecution_Inr[OF assms] obtain cmdbuf where
    d: "device s' =
       device_advance (progress response_ok)
         (queue_submit (make_submit_info info' cmdbuf) (fence info') (device drain_example))"
    and m: "master_semaphore s' =
       Refresh (device s')
         ((master_semaphore drain_example)
            \<lparr>current_tick := current_tick (master_semaphore drain_example) + 1\<rparr>)"
    by blast
  from d have "sem_values (device s') 0 = 6"
    by (simp add: response_ok_def queue_submit_def drain_example_def)
  with m show ?thesis by (simp add: Refresh_def drain_example_def)
qed

theorem pending_ops_drain_witness:
  "\<exists>s' info'. SubmitExecution response_ok empty_SubmitInfo drain_example = Inr (s', info') \<and>
     map gpu_tick (pending_ops drain_example) = [5, 6, 7] \<and>
     known_gpu_tick (master_semaphore s') = 6 \<and>
     callbacks_run s' = [50, 60] \<and>
     pending_ops s' = [\<lparr>callback = 70, gpu_tick = 7\<rparr>]"
proof -
  have idle: "\<not> is_rendering drain_example"
    by (simp add: drain_example_def example_scheduler_facts)
  have ok: "submit_result response_ok = SubmitOk" by (simp add: response_ok_def)
  from SubmitExecution_returns[OF ok, of drain_example empty_SubmitInfo] idle
  obtain s' info' where
    se: "SubmitExecution response_ok empty_SubmitInfo drain_example = Inr (s', info')" by blast
  note k = drain_example_submit[OF se]
  have cr: "callbacks_run drain_example = []"
    by (simp add: drain_example_def example_scheduler_def Scheduler_init_fields)
  have po: "pending_ops drain_example =
      [\<lparr>callback = 50, gpu_tick = 5\<rparr>, \<lparr>callback = 60, gpu_tick = 6\<rparr>,
       \<lparr>callback = 70, gpu_tick = 7\<rparr>]"
    by (simp add: drain_example_def)
  from pending_ops_drain[OF se]
  have a: "callbacks_run s' =
           callbacks_run drain_example @
           map callback
             (takeWhile (\<lambda>p. gpu_tick p \<le> known_gpu_tick (master_semaphore s'))
                (pending_ops drain_example))"
    and b: "pending_ops s' =
           dropWhile (\<lambda>p. gpu_tick p \<le> known_gpu_tick (master_semaphore s'))
             (pending_ops drain_example)"
    by blast+
  from a have "callbacks_run s' = [50, 60]"
    unfolding k cr po by simp
  moreover from b have "pending_ops s' = [\<lparr>callback = 70, gpu_tick = 7\<rparr>]"
    unfolding k po by simp
  moreover have "map gpu_tick (pending_ops drain_example) = [5, 6, 7]"
    unfolding po by simp
  ultimately have "SubmitExecution response_ok empty_SubmitInfo drain_example = Inr (s', info') \<and>
     map gpu_tick (pending_ops drain_example) = [5, 6, 7] \<and>
     known_gpu_tick (master_semaphore s') = 6 \<and>
     callbacks_run s' = [50, 60] \<and>
     pending_ops s' = [\<lparr>callback = 70, gpu_tick = 7\<rparr>]"
    using se k by (simp only: simp_thms)
  then show ?thesis by (intro exI)
qed

subsection \<open>Device loss\<close>

lemma SubmitExecution_device_lost:
  assumes "submit_result d = SubmitDeviceLost"
  shows "\<exists>e. SubmitExecution d info s = Inl e"
    and "(is_rendering s \<longrightarrow> barriers_fit (render_state s)) \<Longrightarrow>
         SubmitExecution d info s =
           Inl (ProcessTerminated (termination_log (instance_ref s) d) (err_what d))"
proof -
  show "\<exists>e. SubmitExecution d info s = Inl e"
    using assms
    by (cases "EndRendering (pre_submit s)")
       (simp_all add: SubmitExecution_stages queue_stage_def Let_def)
  assume "is_rendering s \<longrightarrow> barriers_fit (render_state s)"
  then have "\<exists>s3. EndRendering (pre_submit s) = Inr s3"
    using EndRendering_fit[of "pre_submit s"] EndRendering_idle[of "pre_submit s"]
    by (cases "is_rendering s") (auto simp: pre_submit_fields)
  then obtain s3 where e: "EndRendering (pre_submit s) = Inr s3" ..
  from EndRendering_fields(4)[OF e] have "instance_ref s3 = instance_ref s"
    by (simp add: pre_submit_fields)
  with e assms show "SubmitExecution d info s =
           Inl (ProcessTerminated (termination_log (instance_ref s) d) (err_what d))"
    by (simp add: SubmitExecution_stages queue_stage_def Let_def termination_log_def)
qed

text \<open>
  Claim C7. When the queue reports device loss for a submission, the call never returns:
  once the open pass, if any, has been closed and the submission made, the process is
  terminated, after one critical log line for each checkpoint the queue reports when the
  instance has the checkpoint capability, and none otherwise. The same holds for
  \<open>Flush\<close>, \<open>Finish\<close> and a \<open>Wait\<close> that forces the submission: none of them
  returns a scheduler.
\<close>

theorem device_loss_terminates:
  assumes "submit_result d = SubmitDeviceLost"
  shows "(\<exists>e. SubmitExecution d info s = Inl e) \<and>
         ((is_rendering s \<longrightarrow> barriers_fit (render_state s)) \<longrightarrow>
            SubmitExecution d info s =
              Inl (ProcessTerminated
                     (if has_nv_checkpoints (instance_ref s)
                      then map (\<lambda>(stage, marker). LogCritical stage marker) (checkpoint_data d)
                      else [])
                     (err_what d)) \<and>
            Flush d info s = SubmitExecution d info s \<and>
            Finish d d2 extra s =
              Inl (ProcessTerminated
                     (if has_nv_checkpoints (instance_ref s)
                      then map (\<lambda>(stage, marker). LogCritical stage marker) (checkpoint_data d)
                      else [])
                     (err_what d)) \<and>
            (current_tick (master_semaphore s) \<le> t \<longrightarrow>
               Wait d extra t s =
                 Inl (ProcessTerminated
                        (if has_nv_checkpoints (instance_ref s)
                         then map (\<lambda>(stage, marker). LogCritical stage marker) (checkpoint_data d)
                         else [])
                        (err_what d))))"
proof (intro conjI impI)
  show "\<exists>e. SubmitExecution d info s = Inl e"
    by (rule SubmitExecution_device_lost(1)[OF assms])
next
  assume fit: "is_rendering s \<longrightarrow> barriers_fit (render_state s)"
  note l = SubmitExecution_device_lost(2)[OF assms fit, unfolded termination_log_def]
  show "SubmitExecution d info s =
              Inl (ProcessTerminated
                     (if has_nv_checkpoints (instance_ref s)
                      then map (\<lambda>(stage, marker). LogCritical stage marker) (checkpoint_data d)
                      else [])
                     (err_what d))"
    by (rule l)
  show "Flush d info s = SubmitExecution d info s" by (simp add: Flush_def)
  show "Finish d d2 extra s =
              Inl (ProcessTerminated
                     (if has_nv_checkpoints (instance_ref s)
                      then map (\<lambda>(stage, marker). LogCritical stage marker) (checkpoint_data d)
                      else [])
                     (err_what d))"
    by (simp only: Finish_def Let_def l[of empty_SubmitInfo] sum.case)
  assume "current_tick (master_semaphore s) \<le> t"
  from Wait_forced[OF this, of d extra]
  show "Wait d extra t s =
                 Inl (ProcessTerminated
                        (if has_nv_checkpoints (instance_ref s)
                         then map (\<lambda>(stage, marker). LogCritical stage marker) (checkpoint_data d)
                         else [])
                        (err_what d))"
    by (simp only: Flush_def l[of empty_SubmitInfo] sum.case)
qed

theorem device_loss_terminates_witness:
  "submit_result response_lost = SubmitDeviceLost \<and> \<not> is_rendering example_scheduler \<and>
   has_nv_checkpoints (instance_ref example_scheduler) \<and>
   SubmitExecution response_lost empty_SubmitInfo example_scheduler =
     Inl (ProcessTerminated [LogCritical eFragmentShader 42] ''ErrorDeviceLost'') \<and>
   Finish response_lost response_ok 0 example_scheduler =
     Inl (ProcessTerminated [LogCritical eFragmentShader 42] ''ErrorDeviceLost'')"
proof -
  have l: "submit_result response_lost = SubmitDeviceLost" by (simp add: response_lost_def)
  have i: "has_nv_checkpoints (instance_ref example_scheduler)"
    by (simp add: example_scheduler_def Scheduler_init_fields example_instance_def)
  have c: "checkpoint_data response_lost = [(eFragmentShader, 42)]"
    "err_what response_lost = ''ErrorDeviceLost''"
    by (simp_all add: response_lost_def)
  from device_loss_terminates[OF l, of empty_SubmitInfo example_scheduler response_ok 0 0]
    example_scheduler_facts(3)
  have "SubmitExecution response_lost empty_SubmitInfo example_scheduler =
          Inl (ProcessTerminated
                 (if has_nv_checkpoints (instance_ref example_scheduler)
                  then map (\<lambda>(stage, marker). LogCritical stage marker)
                         (checkpoint_data response_lost)
                  else [])
                 (err_what response_lost))"
    and "Finish response_lost response_ok 0 example_scheduler =
          Inl (ProcessTerminated
                 (if has_nv_checkpoints (instance_ref example_scheduler)
                  then map (\<lambda>(stage, marker). LogCritical stage marker)
                         (checkpoint_data response_lost)
                  else [])
                 (err_what response_lost))"
    by blast+
  then have "SubmitExecution response_lost empty_SubmitInfo example_scheduler =
     Inl (ProcessTerminated [LogCritical eFragmentShader 42] ''ErrorDeviceLost'')"
    and "Finish response_lost response_ok 0 example_scheduler =
     Inl (ProcessTerminated [LogCritical eFragmentShader 42] ''ErrorDeviceLost'')"
    unfolding c using i by simp_all
  with l i example_scheduler_facts(3) show ?thesis by (simp only: simp_thms)
qed

subsection \<open>Idle and recording after a submission\<close>






subsection \<open>Wait stage masks\<close>

lemma SubmitExecution_submitted:
  assumes "SubmitExecution d info s = Inr (s', info')"
  shows "\<exists>cmdbuf. submitted (device s') =
           submitted (device s) @
           [\<lparr>sub_info = make_submit_info info' cmdbuf, sub_fence = fence info'\<rparr>] \<and>
           wait_semas info' = wait_semas info"
proof -
  from SubmitExecution_Inr[OF assms] obtain cmdbuf where
    i: "info' = AddSignal (semaphore (master_semaphore s)) (current_tick (master_semaphore s)) info"
    and d: "device s' =
       device_advance (progress d)
         (queue_submit (make_submit_info info' cmdbuf) (fence info') (device s))"
    by blast
  from d have "submitted (device s') =
           submitted (device s) @
           [\<lparr>sub_info = make_submit_info info' cmdbuf, sub_fence = fence info'\<rparr>]"
    by (simp only: submit_history)
  moreover from i have "wait_semas info' = wait_semas info" by (simp add: AddSignal_def)
  ultimately show ?thesis by blast
qed

text \<open>
  Claim C9. The submit description built for every submission carries the fixed
  two-element list of wait stage masks, all-commands then color-attachment-output, while
  the wait semaphores and their count (cast to 32 bits) come from the caller's
  \<open>SubmitInfo\<close>; so does the one the queue receives. For a \<open>SubmitInfo\<close> with fewer
  than \<open>2 ^ 32\<close> wait semaphores, every semaphore counted has a stage mask exactly when
  there are at most two of them.
\<close>

theorem wait_stage_masks_fixed:
  "pWaitDstStageMask (make_submit_info info cmdbuf) = [{eAllCommands}, {eColorAttachmentOutput}] \<and>
   waitSemaphoreCount (make_submit_info info cmdbuf) = length (wait_semas info) mod 2 ^ 32 \<and>
   pWaitSemaphores (make_submit_info info cmdbuf) = wait_semas info \<and>
   (SubmitExecution d info s = Inr (s', info') \<longrightarrow>
      submitted (device s') \<noteq> [] \<and>
      pWaitDstStageMask (sub_info (last (submitted (device s')))) =
        [{eAllCommands}, {eColorAttachmentOutput}] \<and>
      waitSemaphoreCount (sub_info (last (submitted (device s')))) =
        length (wait_semas info) mod 2 ^ 32 \<and>
      pWaitSemaphores (sub_info (last (submitted (device s')))) = wait_semas info \<and>
      (length (wait_semas info) < 2 ^ 32 \<longrightarrow>
         stage_masks_cover (sub_info (last (submitted (device s')))) =
           (length (wait_semas info) \<le> 2)))"
proof (intro conjI impI)
  show "pWaitDstStageMask (make_submit_info info cmdbuf) = [{eAllCommands}, {eColorAttachmentOutput}]"
    "waitSemaphoreCount (make_submit_info info cmdbuf) = length (wait_semas info) mod 2 ^ 32"
    "pWaitSemaphores (make_submit_info info cmdbuf) = wait_semas info"
    by (simp_all add: make_submit_info_def wait_stage_masks_def u32_cast_def)
next
  assume se: "SubmitExecution d info s = Inr (s', info')"
  from SubmitExecution_submitted[OF se] obtain cb where
    l: "submitted (device s') =
           submitted (device s) @
           [\<lparr>sub_info = make_submit_info info' cb, sub_fence = fence info'\<rparr>]"
    and w: "wait_semas info' = wait_semas info"
    by blast
  from l show "submitted (device s') \<noteq> []" by simp
  from l have last: "sub_info (last (submitted (device s'))) = make_submit_info info' cb"
    by simp
  show "pWaitDstStageMask (sub_info (last (submitted (device s')))) =
        [{eAllCommands}, {eColorAttachmentOutput}]"
    "waitSemaphoreCount (sub_info (last (submitted (device s')))) =
        length (wait_semas info) mod 2 ^ 32"
    "pWaitSemaphores (sub_info (last (submitted (device s')))) = wait_semas info"
    unfolding last using w
    by (simp_all add: make_submit_info_def wait_stage_masks_def u32_cast_def)
  assume "length (wait_semas info) < 2 ^ 32"
  then show "stage_masks_cover (sub_info (last (submitted (device s')))) =
           (length (wait_semas info) \<le> 2)"
    unfolding last using w
    by (simp add: stage_masks_cover_def make_submit_info_def wait_stage_masks_def u32_cast_def
          numeral_2_eq_2)
qed

theorem wait_stage_masks_fixed_witness:
  "\<exists>s' info'. SubmitExecution response_ok two_waits example_scheduler = Inr (s', info') \<and>
     length (wait_semas two_waits) = 2 \<and>
     pWaitDstStageMask (sub_info (last (submitted (device s')))) =
       [{eAllCommands}, {eColorAttachmentOutput}] \<and>
     waitSemaphoreCount (sub_info (last (submitted (device s')))) = 2 \<and>
     stage_masks_cover (sub_info (last (submitted (device s'))))"
proof -
  have ok: "submit_result response_ok = SubmitOk" by (simp add: response_ok_def)
  from SubmitExecution_returns[OF ok, of example_scheduler two_waits] example_scheduler_facts(3)
  obtain s' info' where se: "SubmitExecution response_ok two_waits example_scheduler = Inr (s', info')"
    by blast
  have n: "length (wait_semas two_waits) = 2" by (simp add: two_waits_def)
  from wait_stage_masks_fixed[of two_waits "current_cmdbuf example_scheduler" response_ok
          example_scheduler s' info'] se n
  have "pWaitDstStageMask (sub_info (last (submitted (device s')))) =
       [{eAllCommands}, {eColorAttachmentOutput}] \<and>
     waitSemaphoreCount (sub_info (last (submitted (device s')))) = 2 \<and>
     stage_masks_cover (sub_info (last (submitted (device s'))))"
    by simp
  with se n have "SubmitExecution response_ok two_waits example_scheduler = Inr (s', info') \<and>
     length (wait_semas two_waits) = 2 \<and>
     pWaitDstStageMask (sub_info (last (submitted (device s')))) =
       [{eAllCommands}, {eColorAttachmentOutput}] \<and>
     waitSemaphoreCount (sub_info (last (submitted (device s')))) = 2 \<and>
     stage_masks_cover (sub_info (last (submitted (device s'))))"
    by (simp only: simp_thms)
  then show ?thesis by (intro exI)
qed

end
